theory Spec2Isabelle
  imports Complex_Main "HOL-Library.Stream" "HOL-Library.Multiset"
begin

section \<open>glitchtop: a shallow embedding of \<^verbatim>\<open>config/glitchtop.py\<close>\<close>

text \<open>
  The program is one Python module: three helpers (\<^verbatim>\<open>format_time\<close>,
  \<^verbatim>\<open>get_uptime\<close>, \<^verbatim>\<open>get_system_status\<close>), the animation \<^verbatim>\<open>glitch_line\<close>
  and the main loop \<^verbatim>\<open>draw\<close>. The embedding keeps the names and the order of the
  source.

  Conventions.
  \<^item> Python floats (percentages, timestamps) are \<open>real\<close>. A float sum or difference
    whose result the code truncates with \<^verbatim>\<open>int\<close>, and the formatting of a float, are
    Python's own and are parameters (\<open>py_float\<close>); elsewhere rounding is not modelled.
  \<^item> Python \<open>str\<close> is \<open>string\<close>, one \<open>char\<close> per character.
  \<^item> A raised exception is the left summand of \<open>py_error + 'a\<close>.
  \<^item> The module \<^verbatim>\<open>random\<close> is a stream of raw draws that every call consumes
    from the front; the stream is arbitrary, so every outcome the library can
    produce is produced by some stream.
  \<^item> The curses window is the list of \<^verbatim>\<open>addstr\<close> calls made, in order; the
    terminal is large enough for every call, and \<^verbatim>\<open>refresh\<close> and
    \<^verbatim>\<open>time.sleep\<close> change none of the modelled values.
  \<^item> What the operating system answers during one loop iteration (key, metrics,
    clock readings, process enumeration) is the record \<open>tick_in\<close>.
\<close>

subsection \<open>Exceptions\<close>

datatype py_error =
  ValueError | IndexError | AttributeError | TypeError | NoSuchProcess | AccessDenied

subsection \<open>Float arithmetic and formatting\<close>

text \<open>
  Python's float addition and subtraction round to the nearest double, and its
  fixed-point formatting (\<^verbatim>\<open>format(x, '.1f')\<close>) depends on the binary representation.
  They are the fields of the parameter \<open>fl\<close>; \<open>fl_fixed\<close> is called with the precision
  and the value, and the width of a format specification is applied in the model,
  with \<open>rjust\<close>.
\<close>

type_synonym fixed_fmt = "nat \<Rightarrow> real \<Rightarrow> string"

record py_float =
  fl_add :: "real \<Rightarrow> real \<Rightarrow> real"
  fl_sub :: "real \<Rightarrow> real \<Rightarrow> real"
  fl_fixed :: fixed_fmt

subsection \<open>Configuration constants\<close>

definition GLITCH_CHARS :: string where
  "GLITCH_CHARS = ''!@#$%^&*()_+=-[]{};:,.<>?ABCDEFGHIJKLMNOPQRSTUVWXYZ0123456789''"

definition TOP_N_PROCS :: nat where "TOP_N_PROCS = 25"
definition MAX_LOG_LINES :: nat where "MAX_LOG_LINES = 4"
definition MIN_WAIT :: real where "MIN_WAIT = 3"
definition MAX_WAIT :: real where "MAX_WAIT = 8"
definition MIN_GLITCH_CHARS :: int where "MIN_GLITCH_CHARS = 1"
definition MAX_GLITCH_CHARS :: int where "MAX_GLITCH_CHARS = 6"
definition MIN_FRAMES :: int where "MIN_FRAMES = 3"
definition MAX_FRAMES :: int where "MAX_FRAMES = 6"

subsection \<open>String formatting built-ins\<close>

definition digit_char :: "nat \<Rightarrow> char" where
  "digit_char d = ''0123456789'' ! d"

fun dec :: "nat \<Rightarrow> string" where
  "dec n = (if n < 10 then [digit_char n] else dec (n div 10) @ [digit_char (n mod 10)])"

declare dec.simps [simp del]

text \<open>\<^verbatim>\<open>str(i)\<close> and the format specification \<^verbatim>\<open>d\<close> without a width.\<close>

definition str_int :: "int \<Rightarrow> string" where
  "str_int i = (if i < 0 then CHR ''-'' # dec (nat (- i)) else dec (nat i))"

definition ljust :: "string \<Rightarrow> nat \<Rightarrow> string" where
  "ljust s w = s @ replicate (w - length s) CHR '' ''"

definition rjust :: "string \<Rightarrow> nat \<Rightarrow> string" where
  "rjust s w = replicate (w - length s) CHR '' '' @ s"

definition zfill :: "string \<Rightarrow> nat \<Rightarrow> string" where
  "zfill s w = replicate (w - length s) CHR ''0'' @ s"

text \<open>
  The format specification \<^verbatim>\<open>0wd\<close>: zeros go between the sign and the digits, and
  the sign counts towards the width.
\<close>

definition fmt_0d :: "nat \<Rightarrow> int \<Rightarrow> string" where
  "fmt_0d w i =
     (if i < 0 then CHR ''-'' # zfill (dec (nat (- i))) (w - 1) else zfill (dec (nat i)) w)"

text \<open>\<^verbatim>\<open>int(x)\<close> on a float truncates towards zero.\<close>

definition py_int :: "real \<Rightarrow> int" where
  "py_int x = (if 0 \<le> x then \<lfloor>x\<rfloor> else \<lceil>x\<rceil>)"

text \<open>
  \<^verbatim>\<open>divmod\<close> on integers is floor division with the remainder's sign following the
  divisor, which is what \<open>div\<close> and \<open>mod\<close> on \<open>int\<close> are. The divisor is the
  constant 60 at both calls.
\<close>

definition divmod :: "int \<Rightarrow> int \<Rightarrow> int \<times> int" where
  "divmod a b = (a div b, a mod b)"

subsection \<open>Utilities\<close>

definition format_time :: "real \<Rightarrow> string" where
  "format_time seconds =
     (let (m, s) = divmod (py_int seconds) 60;
          (h, m) = divmod m 60
      in fmt_0d 2 h @ '':'' @ fmt_0d 2 m @ '':'' @ fmt_0d 2 s)"

definition get_uptime :: "py_float \<Rightarrow> real \<Rightarrow> real \<Rightarrow> string" where
  "get_uptime fl now boot_time = format_time (fl_sub fl now boot_time)"

definition get_system_status :: "real \<Rightarrow> real \<Rightarrow> string" where
  "get_system_status cpu mem =
     (if cpu \<ge> 80 \<or> mem \<ge> 85 then ''CRITICAL''
      else if cpu \<ge> 60 \<or> mem \<ge> 70 then ''DEGRADED''
      else if cpu \<ge> 40 \<or> mem \<ge> 60 then ''MONITORING''
      else ''NOMINAL'')"

subsection \<open>The random module\<close>

type_synonym rng = "nat stream"

text \<open>
  \<^verbatim>\<open>randrange(stop)\<close> raises \<^verbatim>\<open>ValueError\<close> on an empty range;
  \<^verbatim>\<open>randint(a, b)\<close> is \<^verbatim>\<open>randrange(a, b + 1)\<close>; \<^verbatim>\<open>choice\<close> raises
  \<^verbatim>\<open>IndexError\<close> on an empty sequence; \<^verbatim>\<open>random()\<close> is a multiple of \<open>2\<^sup>-\<^sup>5\<^sup>3\<close>
  in \<open>[0, 1)\<close> and \<^verbatim>\<open>uniform(a, b)\<close> is \<^verbatim>\<open>a + (b - a) * random()\<close>.
\<close>

definition randrange :: "int \<Rightarrow> rng \<Rightarrow> py_error + (int \<times> rng)" where
  "randrange stop g =
     (if stop \<le> 0 then Inl ValueError else Inr (int (shd g mod nat stop), stl g))"

definition randint :: "int \<Rightarrow> int \<Rightarrow> rng \<Rightarrow> py_error + (int \<times> rng)" where
  "randint a b g =
     (if b < a then Inl ValueError else Inr (a + int (shd g mod nat (b - a + 1)), stl g))"

definition choice :: "'a list \<Rightarrow> rng \<Rightarrow> py_error + ('a \<times> rng)" where
  "choice seq g =
     (if seq = [] then Inl IndexError else Inr (seq ! (shd g mod length seq), stl g))"

definition random_unit :: "rng \<Rightarrow> real \<times> rng" where
  "random_unit g = (real (shd g mod 2 ^ 53) / 2 ^ 53, stl g)"

definition uniform :: "real \<Rightarrow> real \<Rightarrow> rng \<Rightarrow> real \<times> rng" where
  "uniform a b g = (let (u, g') = random_unit g in (a + (b - a) * u, g'))"

subsection \<open>The screen\<close>

text \<open>
  An attribute is a colour pair, possibly or-ed with \<^verbatim>\<open>A_BOLD\<close>. A screen operation
  is one \<^verbatim>\<open>stdscr.addstr(row, col, text, attr)\<close>.
\<close>

datatype attr = Attr (pair_of: nat) (is_bold: bool)

definition color_pair :: "nat \<Rightarrow> attr" where
  "color_pair n = Attr n False"

definition bold :: "attr \<Rightarrow> attr" where
  "bold a = Attr (pair_of a) True"

datatype scr_op = Addstr (op_row: nat) (op_col: nat) (op_text: string) (op_attr: attr)

subsection \<open>The glitch animation\<close>

text \<open>
  The inner loop of \<^verbatim>\<open>glitch_line\<close>: \<open>k\<close> times, pick a position with
  \<^verbatim>\<open>randrange(len(glitched))\<close> and overwrite it with \<^verbatim>\<open>choice(GLITCH_CHARS)\<close>.
\<close>

fun glitch_chars :: "nat \<Rightarrow> string \<Rightarrow> rng \<Rightarrow> py_error + (string \<times> rng)" where
  "glitch_chars 0 glitched g = Inr (glitched, g)"
| "glitch_chars (Suc k) glitched g =
     (case randrange (int (length glitched)) g of
        Inl e \<Rightarrow> Inl e
      | Inr (pos, g1) \<Rightarrow>
          (case choice GLITCH_CHARS g1 of
             Inl e \<Rightarrow> Inl e
           | Inr (c, g2) \<Rightarrow> glitch_chars k (glitched[nat pos := c]) g2))"

text \<open>
  The outer loop: \<open>n\<close> frames. Each frame starts from a fresh copy of the text, draws the
  number of replacements with \<^verbatim>\<open>randint(min_chars, max_chars)\<close> (a count below 1 runs
  the inner loop zero times) and writes the result padded to the length of the text.
\<close>

fun glitch_frames ::
  "nat \<Rightarrow> string \<Rightarrow> attr \<Rightarrow> nat \<Rightarrow> nat \<Rightarrow> int \<Rightarrow> int \<Rightarrow> rng \<Rightarrow> py_error + (scr_op list \<times> rng)"
where
  "glitch_frames 0 text color row x min_chars max_chars g = Inr ([], g)"
| "glitch_frames (Suc n) text color row x min_chars max_chars g =
     (case randint min_chars max_chars g of
        Inl e \<Rightarrow> Inl e
      | Inr (k, g1) \<Rightarrow>
          (case glitch_chars (nat k) text g1 of
             Inl e \<Rightarrow> Inl e
           | Inr (glitched, g2) \<Rightarrow>
               (case glitch_frames n text color row x min_chars max_chars g2 of
                  Inl e \<Rightarrow> Inl e
                | Inr (ws, g3) \<Rightarrow>
                    Inr (Addstr row x (ljust glitched (length text)) color # ws, g3))))"

definition glitch_line ::
  "string \<Rightarrow> attr \<Rightarrow> nat \<Rightarrow> nat \<Rightarrow> int \<Rightarrow> int \<Rightarrow> int \<Rightarrow> int \<Rightarrow> rng \<Rightarrow> py_error + (scr_op list \<times> rng)"
where
  "glitch_line text color row x min_chars max_chars min_frames max_frames g =
     (case randint min_frames max_frames g of
        Inl e \<Rightarrow> Inl e
      | Inr (n, g1) \<Rightarrow> glitch_frames (nat n) text color row x min_chars max_chars g1)"

subsection \<open>The header and the row layout\<close>

definition bslash :: char where
  "bslash = CHR 0x5C"

definition HEADER :: "string list" where
  "HEADER =
    [''   _______  _____________________  ___   ____  __________  ____  ____  ______'',
     ''  / ___/'' @ [bslash] @ '' '' @ [bslash] @ ''/ / ___/_  __/ ____/  |/  /  / __ '' @ [bslash] @ ''/ ____/ __ '' @ [bslash] @ ''/ __ '' @ [bslash] @ ''/ __ '' @ [bslash] @ ''/_  __/'',
     ''  '' @ [bslash] @ ''__ '' @ [bslash] @ ''  '' @ [bslash] @ ''  /'' @ [bslash] @ ''__ '' @ [bslash] @ '' / / / __/ / /|_/ /  / /_/ / __/ / /_/ / / / / /_/ / / /   '',
     '' ___/ /  / /___/ // / / /___/ /  / /  / _, _/ /___/ ____/ /_/ / _, _/ / /    '',
     ''/____/  /_//____//_/ /_____/_/  /_/  /_/ |_/_____/_/    '' @ [bslash] @ ''____/_/ |_| /_/     '',
     '' '',
     ''=============================================================================='',
     '' '']"

text \<open>
  \<^verbatim>\<open>row\<close> starts at 1 and is incremented once per header line; the other rows are
  offsets from where it stops.
\<close>

definition draw_header :: "scr_op list" where
  "draw_header = map (\<lambda>(i, line). Addstr (1 + i) 2 line (color_pair 8)) (enumerate 0 HEADER)"

definition status_row :: nat where "status_row = 1 + length HEADER"
definition base_row :: nat where "base_row = status_row + 2"
definition live_feed_row :: nat where "live_feed_row = status_row - 1"

subsection \<open>The device identifier\<close>

definition generate_device_id :: "rng \<Rightarrow> py_error + (string \<times> rng)" where
  "generate_device_id g =
     (case randint 10000 99999 g of
        Inl e \<Rightarrow> Inl e
      | Inr (a, g1) \<Rightarrow>
          (case randint 10000 99999 g1 of
             Inl e \<Rightarrow> Inl e
           | Inr (b, g2) \<Rightarrow>
               (case randint 100000000000 999999999999 g2 of
                  Inl e \<Rightarrow> Inl e
                | Inr (c, g3) \<Rightarrow>
                    Inr (str_int a @ ''-'' @ str_int b @ ''-'' @ str_int c, g3))))"

subsection \<open>The status line and its glitch schedule\<close>

definition status_color :: "string \<Rightarrow> attr" where
  "status_color status_text_val =
     (if status_text_val = ''CRITICAL'' then bold (color_pair 5)
      else if status_text_val = ''DEGRADED'' then bold (color_pair 1)
      else color_pair 4)"

text \<open>
  The schedule check of one iteration. \<open>now_check\<close> is the clock read in the
  condition; \<open>now_reset\<close> is the clock read after the animation. The wait is the value of
  the call \<^verbatim>\<open>random.uniform(MIN_WAIT, MAX_WAIT)\<close> inside the condition. The result is
  the frames written, the new \<^verbatim>\<open>last_status_glitch_time\<close> and the generator.
\<close>

definition status_glitch ::
  "string \<Rightarrow> attr \<Rightarrow> real \<Rightarrow> real \<Rightarrow> real \<Rightarrow> rng \<Rightarrow> py_error + (scr_op list \<times> real \<times> rng)"
where
  "status_glitch STATUS_LINE color last_status_glitch_time now_check now_reset g =
     (let (wait, g1) = uniform MIN_WAIT MAX_WAIT g in
      if now_check - last_status_glitch_time > wait then
        (case glitch_line STATUS_LINE color status_row 4
                MIN_GLITCH_CHARS MAX_GLITCH_CHARS MIN_FRAMES MAX_FRAMES g1 of
           Inl e \<Rightarrow> Inl e
         | Inr (frames, g2) \<Rightarrow> Inr (frames, now_reset, g2))
      else Inr ([], last_status_glitch_time, g1))"

subsection \<open>The system overview\<close>

definition system_lines :: "fixed_fmt \<Rightarrow> real \<Rightarrow> real \<Rightarrow> real \<Rightarrow> string \<Rightarrow> string list" where
  "system_lines fixed cpu mem load uptime =
    [''---------------------- SYSTEM OVERVIEW ----------------------'',
     ''CPU Usage : '' @ rjust (fixed 1 cpu) 5 @ ''%'',
     ''Memory    : '' @ rjust (fixed 1 mem) 5 @ ''%'',
     ''Load Avg  : '' @ rjust (fixed 2 load) 5,
     ''Uptime    : '' @ uptime,
     '' '',
     ''------------------------- PROCESSES -------------------------'']"

text \<open>\<^verbatim>\<open>sub in s\<close> on strings.\<close>

fun starts_with :: "string \<Rightarrow> string \<Rightarrow> bool" where
  "starts_with [] s = True"
| "starts_with (c # cs) [] = False"
| "starts_with (c # cs) (d # ds) = (c = d \<and> starts_with cs ds)"

fun contains :: "string \<Rightarrow> string \<Rightarrow> bool" where
  "contains sub [] = (sub = [])"
| "contains sub (c # cs) = (starts_with sub (c # cs) \<or> contains sub cs)"

definition line_color :: "string \<Rightarrow> attr" where
  "line_color line =
     (if contains ''CPU'' line then color_pair 2
      else if contains ''Memory'' line then color_pair 3
      else if contains ''Load'' line then color_pair 6
      else if contains ''Uptime'' line then color_pair 4
      else color_pair 8)"

definition draw_system_lines :: "string list \<Rightarrow> scr_op list" where
  "draw_system_lines ls =
     map (\<lambda>(i, line). Addstr (base_row + i) 4 (ljust line 40) (line_color line)) (enumerate 0 ls)"

subsection \<open>The process list\<close>

text \<open>
  \<open>proc_info\<close> is \<^verbatim>\<open>p.info\<close> of one process that
  \<^verbatim>\<open>psutil.process_iter([...])\<close> yields. The dictionary is filled before the loop body
  runs: a field whose read was denied is \<^verbatim>\<open>None\<close>, the library's value for such a
  field, and a process that vanished is not yielded at all. The body of the
  \<^verbatim>\<open>try\<close> only reads the dictionary. \<^verbatim>\<open>pid\<close> is always there; \<^verbatim>\<open>cpu_times\<close> is
  its two fields \<^verbatim>\<open>user\<close> and \<^verbatim>\<open>system\<close>. \<open>proc_entry\<close> is the dictionary appended to
  \<^verbatim>\<open>processes\<close>; \<^verbatim>\<open>cpu\<close> and \<^verbatim>\<open>mem\<close> are copied as they are.
\<close>

record proc_info =
  info_pid :: int
  info_name :: "string option"
  info_username :: "string option"
  info_cpu_percent :: "real option"
  info_memory_percent :: "real option"
  info_cpu_times :: "(real \<times> real) option"

record proc_entry =
  p_pid :: int
  p_user :: string
  p_cpu :: "real option"
  p_mem :: "real option"
  p_time :: string
  p_name :: string

text \<open>
  The body of the \<^verbatim>\<open>try\<close>. \<^verbatim>\<open>cpu_time.user\<close> on \<^verbatim>\<open>None\<close> raises
  \<^verbatim>\<open>AttributeError\<close>; the sum of the two times is a float sum; the values of the
  dictionary are evaluated in the order written, and \<^verbatim>\<open>None[:20]\<close> raises
  \<^verbatim>\<open>TypeError\<close>.
\<close>

definition make_entry :: "py_float \<Rightarrow> proc_info \<Rightarrow> py_error + proc_entry" where
  "make_entry fl info =
     (case info_cpu_times info of
        None \<Rightarrow> Inl AttributeError
      | Some (user, system) \<Rightarrow>
          (let total_time = fl_add fl user system in
           (case info_name info of
              None \<Rightarrow> Inl TypeError
            | Some name \<Rightarrow>
                Inr \<lparr> p_pid = info_pid info,
                      p_user = (case info_username info of
                                  None \<Rightarrow> ''?''
                                | Some u \<Rightarrow> if u = [] then ''?'' else take 8 u),
                      p_cpu = info_cpu_percent info,
                      p_mem = info_memory_percent info,
                      p_time = format_time total_time,
                      p_name = take 20 name \<rparr>)))"

text \<open>
  The loop over the enumeration. The handler catches \<^verbatim>\<open>NoSuchProcess\<close> and
  \<^verbatim>\<open>AccessDenied\<close> and goes on with the next process; any other exception leaves
  the loop.
\<close>

fun collect_processes ::
  "py_float \<Rightarrow> proc_entry list \<Rightarrow> proc_info list \<Rightarrow> py_error + proc_entry list"
where
  "collect_processes fl processes [] = Inr processes"
| "collect_processes fl processes (info # rest) =
     (case make_entry fl info of
        Inr entry \<Rightarrow> collect_processes fl (processes @ [entry]) rest
      | Inl e \<Rightarrow>
          (if e = NoSuchProcess \<or> e = AccessDenied then collect_processes fl processes rest
           else Inl e))"

text \<open>
  \<^verbatim>\<open>processes.sort(key=..., reverse=True)\<close>: the list is reversed, sorted stably in
  ascending order of the key, and reversed again. The keys are compared with
  \<^verbatim>\<open><\<close>, which raises \<^verbatim>\<open>TypeError\<close> when a key is \<^verbatim>\<open>None\<close>; sorting two or more
  elements compares every key at least once, sorting fewer compares none.
\<close>

definition cpu_key :: "proc_entry \<Rightarrow> real" where
  "cpu_key p = (case p_cpu p of Some c \<Rightarrow> c | None \<Rightarrow> 0)"

definition sort_by_cpu :: "proc_entry list \<Rightarrow> py_error + proc_entry list" where
  "sort_by_cpu processes =
     (if 2 \<le> length processes \<and> list_ex (\<lambda>p. p_cpu p = None) processes then Inl TypeError
      else Inr (rev (sort_key cpu_key (rev processes))))"

definition cpu_color :: "real \<Rightarrow> attr" where
  "cpu_color c =
     (if c > 50 then bold (color_pair 5) else if c > 20 then color_pair 6 else color_pair 4)"

definition mem_color :: "real \<Rightarrow> attr" where
  "mem_color m =
     (if m > 50 then bold (color_pair 5) else if m > 20 then color_pair 7 else color_pair 4)"

text \<open>
  The two colours are computed first, \<^verbatim>\<open>cpu\<close> before \<^verbatim>\<open>mem\<close>, and
  \<^verbatim>\<open>None > 50\<close> raises \<^verbatim>\<open>TypeError\<close>.
\<close>

definition line_parts :: "fixed_fmt \<Rightarrow> proc_entry \<Rightarrow> py_error + (string \<times> attr) list" where
  "line_parts fixed p =
     (case p_cpu p of
        None \<Rightarrow> Inl TypeError
      | Some c \<Rightarrow>
          (case p_mem p of
             None \<Rightarrow> Inl TypeError
           | Some m \<Rightarrow>
               Inr [(rjust (str_int (p_pid p)) 5 @ '' '', color_pair 8),
                    (ljust (p_user p) 8 @ '' '', color_pair 8),
                    (rjust (fixed 1 c) 5 @ '' '', cpu_color c),
                    (rjust (fixed 1 m) 5 @ '' '', mem_color m),
                    (rjust (p_time p) 9 @ '' '', color_pair 8),
                    (ljust (p_name p) 20, color_pair 8)]))"

fun draw_parts :: "nat \<Rightarrow> nat \<Rightarrow> (string \<times> attr) list \<Rightarrow> scr_op list" where
  "draw_parts r x [] = []"
| "draw_parts r x ((text, color) # rest) =
     Addstr r x text color # draw_parts r (x + length text) rest"

definition shown_processes :: "proc_entry list \<Rightarrow> proc_entry list" where
  "shown_processes processes = take TOP_N_PROCS processes"

fun draw_rows :: "fixed_fmt \<Rightarrow> nat \<Rightarrow> (nat \<times> proc_entry) list \<Rightarrow> py_error + scr_op list" where
  "draw_rows fixed proc_start [] = Inr []"
| "draw_rows fixed proc_start ((i, p) # rest) =
     (case line_parts fixed p of
        Inl e \<Rightarrow> Inl e
      | Inr parts \<Rightarrow>
          (case draw_rows fixed proc_start rest of
             Inl e \<Rightarrow> Inl e
           | Inr ops \<Rightarrow> Inr (draw_parts (proc_start + i) 4 parts @ ops)))"

definition draw_process_rows ::
  "fixed_fmt \<Rightarrow> nat \<Rightarrow> proc_entry list \<Rightarrow> py_error + scr_op list"
where
  "draw_process_rows fixed proc_start processes =
     draw_rows fixed proc_start (enumerate 0 (shown_processes processes))"

subsection \<open>The scrolling log\<close>

definition log_message :: "fixed_fmt \<Rightarrow> string \<Rightarrow> real \<Rightarrow> real \<Rightarrow> string" where
  "log_message fixed hms cpu mem =
     ''['' @ hms @ ''] CPU '' @ fixed 1 cpu @ ''%, MEM '' @ fixed 1 mem @ ''%''"

text \<open>\<^verbatim>\<open>append\<close>, then \<^verbatim>\<open>pop(0)\<close> when the list is longer than \<^verbatim>\<open>MAX_LOG_LINES\<close>.\<close>

definition log_append :: "string list \<Rightarrow> string \<Rightarrow> string list" where
  "log_append log_lines message =
     (let appended = log_lines @ [message]
      in if length appended > MAX_LOG_LINES then tl appended else appended)"

definition draw_log :: "nat \<Rightarrow> string list \<Rightarrow> scr_op list" where
  "draw_log log_start_row log_lines =
     map (\<lambda>(i, line). Addstr (log_start_row + i) 4 (ljust line 60) (color_pair 6))
       (enumerate 0 log_lines)"

subsection \<open>The main loop\<close>

text \<open>
  The state that survives an iteration: the time of the last glitch, the log buffer
  and the generator. \<open>tick_in\<close> is what the iteration reads from outside:
  \<open>in_key\<close> is the result of \<^verbatim>\<open>getch\<close> (\<open>None\<close> when it raised, which the loop
  ignores), the three clock readings are those of \<^verbatim>\<open>get_uptime\<close>, of the schedule
  check and of the reset after the animation, \<open>in_procs\<close> is the enumeration of
  \<^verbatim>\<open>process_iter\<close>, \<open>in_strftime\<close> is \<^verbatim>\<open>time.strftime('%H:%M:%S')\<close>.
\<close>

record loop_state =
  st_last_status_glitch_time :: real
  st_log_lines :: "string list"
  st_rng :: rng

record tick_in =
  in_key :: "int option"
  in_cpu :: real
  in_mem :: real
  in_load :: real
  in_now_uptime :: real
  in_boot_time :: real
  in_now_check :: real
  in_now_reset :: real
  in_procs :: "proc_info list"
  in_strftime :: string

datatype tick_out = Quit | Continue loop_state "scr_op list"

definition draw_init :: "real \<Rightarrow> rng \<Rightarrow> py_error + (loop_state \<times> scr_op list)" where
  "draw_init now g =
     (case generate_device_id g of
        Inl e \<Rightarrow> Inl e
      | Inr (live_feed, g1) \<Rightarrow>
          Inr (\<lparr> st_last_status_glitch_time = now, st_log_lines = [], st_rng = g1 \<rparr>,
               draw_header
               @ [Addstr live_feed_row 4 (''DEVICE ID: '' @ live_feed) (color_pair 6)]))"

text \<open>
  One iteration of \<^verbatim>\<open>while True\<close>, in the order of the source; 113 is
  \<^verbatim>\<open>ord('q')\<close>.
\<close>

definition tick :: "py_float \<Rightarrow> loop_state \<Rightarrow> tick_in \<Rightarrow> py_error + tick_out" where
  "tick fl st inp =
     (if in_key inp = Some 113 then Inr Quit
      else
       (let cpu = in_cpu inp;
            mem = in_mem inp;
            load = in_load inp;
            uptime = get_uptime fl (in_now_uptime inp) (in_boot_time inp)
        in
        (case generate_device_id (st_rng st) of
           Inl e \<Rightarrow> Inl e
         | Inr (live_feed, g1) \<Rightarrow>
            (let status_text_val = get_system_status cpu mem;
                 STATUS_LINE = ''SYSTEM STATUS: '' @ status_text_val;
                 color = status_color status_text_val
             in
             (case status_glitch STATUS_LINE color (st_last_status_glitch_time st)
                     (in_now_check inp) (in_now_reset inp) g1 of
                Inl e \<Rightarrow> Inl e
              | Inr (frames, last_glitch, g2) \<Rightarrow>
                 (let overview = system_lines (fl_fixed fl) cpu mem load uptime in
                  (case collect_processes fl [] (in_procs inp) of
                     Inl e \<Rightarrow> Inl e
                   | Inr unsorted \<Rightarrow>
                      (case sort_by_cpu unsorted of
                         Inl e \<Rightarrow> Inl e
                       | Inr processes \<Rightarrow>
                          (let proc_start = base_row + length overview + 1 in
                           (case draw_process_rows (fl_fixed fl) proc_start processes of
                              Inl e \<Rightarrow> Inl e
                            | Inr rows \<Rightarrow>
                               (let separator_row = proc_start + TOP_N_PROCS + 1;
                                    log_start_row = separator_row + 1;
                                    logged = log_append (st_log_lines st)
                                      (log_message (fl_fixed fl) (in_strftime inp) cpu mem)
                                in
                                Inr (Continue
                                  \<lparr> st_last_status_glitch_time = last_glitch,
                                    st_log_lines = logged, st_rng = g2 \<rparr>
                                  (Addstr live_feed_row 4 (''HANDSHAKE ID: '' @ live_feed)
                                     (color_pair 6)
                                   # frames
                                   @ [Addstr status_row 4 (ljust STATUS_LINE 40) color]
                                   @ draw_system_lines overview
                                   @ [Addstr (proc_start - 1) 4
                                        '' PID   USER     CPU%   MEM%    TIME     COMMAND''
                                        (bold (color_pair 8))]
                                   @ rows
                                   @ [Addstr separator_row 4 (replicate 60 CHR ''-'')
                                        (color_pair 8)]
                                   @ draw_log log_start_row logged)))))))))))))"

text \<open>
  The loop over the iterations whose inputs are given: it stops at the quit key, and
  an exception leaves it.
\<close>

fun draw_loop ::
  "py_float \<Rightarrow> loop_state \<Rightarrow> tick_in list \<Rightarrow> py_error + (loop_state \<times> scr_op list)"
where
  "draw_loop fl st [] = Inr (st, [])"
| "draw_loop fl st (inp # rest) =
     (case tick fl st inp of
        Inl e \<Rightarrow> Inl e
      | Inr Quit \<Rightarrow> Inr (st, [])
      | Inr (Continue st' ws) \<Rightarrow>
          (case draw_loop fl st' rest of
             Inl e \<Rightarrow> Inl e
           | Inr (st'', ws') \<Rightarrow> Inr (st'', ws @ ws')))"

section \<open>Vocabulary of the properties\<close>

text \<open>
  A process all of whose fields but the username were read.
\<close>

definition complete :: "proc_info \<Rightarrow> bool" where
  "complete info =
     (info_cpu_times info \<noteq> None \<and> info_name info \<noteq> None
      \<and> info_cpu_percent info \<noteq> None \<and> info_memory_percent info \<noteq> None)"

text \<open>
  The wait that the iteration starting in \<open>st\<close> compares against: the value of its call
  of \<^verbatim>\<open>random.uniform\<close>, which comes after the three \<^verbatim>\<open>randint\<close> calls of
  \<^verbatim>\<open>generate_device_id\<close>.
\<close>

definition drawn_wait :: "loop_state \<Rightarrow> real" where
  "drawn_wait st = fst (uniform MIN_WAIT MAX_WAIT (sdrop 3 (st_rng st)))"

text \<open>
  The columns at which texts written one after the other start, from column \<open>x\<close>.
\<close>

fun starts :: "nat \<Rightarrow> string list \<Rightarrow> nat list" where
  "starts x [] = []"
| "starts x (t # ts) = x # starts (x + length t) ts"

text \<open>
  The screen operations of one iteration with the rows evaluated, as a function of
  the identifier, the animation frames, the rows of the process table and the log
  buffer.
\<close>

definition tick_ops ::
  "py_float \<Rightarrow> tick_in \<Rightarrow> string \<Rightarrow> scr_op list \<Rightarrow> scr_op list \<Rightarrow> string list \<Rightarrow> scr_op list"
where
  "tick_ops fl inp live_feed frames rows logged =
     Addstr 8 4 (''HANDSHAKE ID: '' @ live_feed) (color_pair 6)
     # frames
     @ [Addstr 9 4
          (ljust (''SYSTEM STATUS: '' @ get_system_status (in_cpu inp) (in_mem inp)) 40)
          (status_color (get_system_status (in_cpu inp) (in_mem inp)))]
     @ draw_system_lines
         (system_lines (fl_fixed fl) (in_cpu inp) (in_mem inp) (in_load inp)
            (get_uptime fl (in_now_uptime inp) (in_boot_time inp)))
     @ [Addstr 18 4 '' PID   USER     CPU%   MEM%    TIME     COMMAND''
          (bold (color_pair 8))]
     @ rows
     @ [Addstr 45 4 (replicate 60 CHR ''-'') (color_pair 8)]
     @ draw_log 46 logged"

text \<open>
  One iteration with the identifier given: the iteration as \<open>tick\<close> computes it, once
  the three draws of the identifier are taken from the generator.
\<close>

definition tick_flat :: "py_float \<Rightarrow> loop_state \<Rightarrow> tick_in \<Rightarrow> string \<Rightarrow> py_error + tick_out" where
  "tick_flat fl st inp live_feed =
     (if in_key inp = Some 113 then Inr Quit
      else
        (case status_glitch (''SYSTEM STATUS: '' @ get_system_status (in_cpu inp) (in_mem inp))
                (status_color (get_system_status (in_cpu inp) (in_mem inp)))
                (st_last_status_glitch_time st) (in_now_check inp) (in_now_reset inp)
                (sdrop 3 (st_rng st)) of
           Inl e \<Rightarrow> Inl e
         | Inr (frames, last_glitch, g2) \<Rightarrow>
             (case collect_processes fl [] (in_procs inp) of
                Inl e \<Rightarrow> Inl e
              | Inr unsorted \<Rightarrow>
                  (case sort_by_cpu unsorted of
                     Inl e \<Rightarrow> Inl e
                   | Inr processes \<Rightarrow>
                       (case draw_process_rows (fl_fixed fl) 19 processes of
                          Inl e \<Rightarrow> Inl e
                        | Inr rows \<Rightarrow>
                            Inr (Continue
                              \<lparr> st_last_status_glitch_time = last_glitch,
                                st_log_lines = log_append (st_log_lines st)
                                  (log_message (fl_fixed fl) (in_strftime inp)
                                     (in_cpu inp) (in_mem inp)),
                                st_rng = g2 \<rparr>
                              (tick_ops fl inp live_feed frames rows
                                 (log_append (st_log_lines st)
                                    (log_message (fl_fixed fl) (in_strftime inp)
                                       (in_cpu inp) (in_mem inp))))))))))"

text \<open>
  The state and the screen operations after an iteration; an iteration that quits or
  raises leaves the state as it was and writes nothing that is kept.
\<close>

definition state_of :: "loop_state \<Rightarrow> py_error + tick_out \<Rightarrow> loop_state" where
  "state_of st r = (case r of Inr (Continue st' ws) \<Rightarrow> st' | Inr Quit \<Rightarrow> st | Inl e \<Rightarrow> st)"

definition ops_of :: "py_error + tick_out \<Rightarrow> scr_op list" where
  "ops_of r = (case r of Inr (Continue st' ws) \<Rightarrow> ws | Inr Quit \<Rightarrow> [] | Inl e \<Rightarrow> [])"

subsection \<open>Sample inputs\<close>

text \<open>
  Float operations that are right where nothing is rounded, with a formatting
  function that is right on whole numbers; a start state whose fourth raw draw makes
  the first wait \<open>59/8\<close> seconds and every later wait 3 seconds; the inputs of an
  iteration at a given clock reading, with two processes; a process whose
  \<^verbatim>\<open>cpu_times\<close> could not be read; and entries of given \<^verbatim>\<open>pid\<close> and \<^verbatim>\<open>cpu\<close>.
\<close>

definition sample_fixed :: fixed_fmt where
  "sample_fixed p x = str_int (py_int x) @ ''.'' @ replicate p CHR ''0''"

definition sample_fl :: py_float where
  "sample_fl = \<lparr> fl_add = (\<lambda>x y. x + y), fl_sub = (\<lambda>x y. x - y), fl_fixed = sample_fixed \<rparr>"

definition sample_state :: loop_state where
  "sample_state =
     \<lparr> st_last_status_glitch_time = 0, st_log_lines = [],
       st_rng = 0 ## 0 ## 0 ## (7 * 2 ^ 50) ## sconst 0 \<rparr>"

definition sample_proc :: "int \<Rightarrow> string option \<Rightarrow> real \<Rightarrow> proc_info" where
  "sample_proc n u c =
     \<lparr> info_pid = n, info_name = Some ''worker'', info_username = u,
       info_cpu_percent = Some c, info_memory_percent = Some 1,
       info_cpu_times = Some (2, 1) \<rparr>"

definition denied_proc :: "int \<Rightarrow> proc_info" where
  "denied_proc n =
     \<lparr> info_pid = n, info_name = Some ''worker'', info_username = None,
       info_cpu_percent = Some 0, info_memory_percent = Some 1,
       info_cpu_times = None \<rparr>"

definition sample_in :: "real \<Rightarrow> tick_in" where
  "sample_in now =
     \<lparr> in_key = None, in_cpu = 10, in_mem = 10, in_load = 0,
       in_now_uptime = now, in_boot_time = 0, in_now_check = now, in_now_reset = now + 1 / 2,
       in_procs = [sample_proc 1 (Some ''root'') 10, sample_proc 2 None 90],
       in_strftime = ''12:00:00'' \<rparr>"

definition sample_entry :: "int \<Rightarrow> real \<Rightarrow> proc_entry" where
  "sample_entry n c =
     \<lparr> p_pid = n, p_user = ''?'', p_cpu = Some c, p_mem = Some 1,
       p_time = ''00:00:03'', p_name = ''worker'' \<rparr>"

section \<open>Properties\<close>

subsection \<open>Facts about formatting\<close>



subsection \<open>Facts about the random module\<close>

lemma randint_Inr_bounds:
  assumes "randint a b g = Inr (k, g')"
  shows "a \<le> k \<and> k \<le> b \<and> g' = stl g"
proof -
  from assms have ab: "a \<le> b" and k: "k = a + int (shd g mod nat (b - a + 1))"
    and g: "g' = stl g"
    by (auto simp: randint_def split: if_splits)
  have "shd g mod nat (b - a + 1) < nat (b - a + 1)"
    using ab by (intro mod_less_divisor) simp
  then have "int (shd g mod nat (b - a + 1)) \<le> b - a"
    using ab by linarith
  with k g show ?thesis by simp
qed

lemma randint_Inl: "randint a b g = Inl e \<Longrightarrow> e = ValueError \<and> b < a"
  by (auto simp: randint_def split: if_splits)

lemma randint_zero: "randint 0 0 g = Inr (0, stl g)"
  by (simp add: randint_def)

lemma uniform_bounds:
  assumes "a \<le> b"
  shows "a \<le> fst (uniform a b g) \<and> fst (uniform a b g) \<le> b \<and> snd (uniform a b g) = stl g"
proof -
  let ?u = "real (shd g mod 2 ^ 53) / 2 ^ 53"
  have "shd g mod 2 ^ 53 < (2::nat) ^ 53" by simp
  then have "real (shd g mod 2 ^ 53) < 2 ^ 53"
    by (metis of_nat_less_iff of_nat_numeral of_nat_power)
  then have u: "0 \<le> ?u \<and> ?u \<le> 1" by simp
  have "0 \<le> (b - a) * ?u" using u assms by simp
  moreover have "(b - a) * ?u \<le> (b - a) * 1"
    using u assms by (intro mult_left_mono) simp_all
  ultimately show ?thesis by (simp add: uniform_def random_unit_def)
qed

lemma sdrop_3: "sdrop 3 g = stl (stl (stl g))"
  by (simp add: numeral_3_eq_3)

lemma sdrop_4: "sdrop 4 g = stl (stl (stl (stl g)))"
  by (simp add: eval_nat_numeral)

lemma sdrop_7: "sdrop 7 g = stl (stl (stl (stl (stl (stl (stl g))))))"
  by (simp add: eval_nat_numeral)

subsection \<open>Facts about the glitch animation\<close>

lemma glitch_frames_zero_chars:
  "glitch_frames n text color row x 0 0 g
     = Inr (replicate n (Addstr row x text color), sdrop n g)"
  by (induction n arbitrary: g) (simp_all add: randint_zero ljust_def)

lemma glitch_frames_empty:
  assumes "1 \<le> min_chars"
  shows "glitch_frames (Suc n) [] color row x min_chars max_chars g = Inl ValueError"
proof (cases "randint min_chars max_chars g")
  case (Inl e)
  then show ?thesis using randint_Inl [OF Inl] by simp
next
  case (Inr p)
  obtain k g1 where p: "p = (k, g1)" by (cases p)
  with Inr randint_Inr_bounds have "min_chars \<le> k" by blast
  with assms obtain j where "nat k = Suc j" by (cases "nat k") auto
  then show ?thesis using Inr p by (simp add: randrange_def)
qed

lemma GLITCH_CHARS_nonempty: "GLITCH_CHARS \<noteq> []"
  by (simp add: GLITCH_CHARS_def)

lemma glitch_chars_ok:
  "glitched \<noteq> [] \<Longrightarrow>
   \<exists>s g'. glitch_chars k glitched g = Inr (s, g') \<and> length s = length glitched"
proof (induction k arbitrary: glitched g)
  case 0
  then show ?case by simp
next
  case (Suc k)
  let ?pos = "int (shd g mod nat (int (length glitched)))"
  let ?c = "GLITCH_CHARS ! (shd (stl g) mod length GLITCH_CHARS)"
  have "glitched[nat ?pos := ?c] \<noteq> []" using Suc.prems by simp
  from Suc.IH [OF this, of "stl (stl g)"] show ?case
    using Suc.prems by (simp add: randrange_def choice_def GLITCH_CHARS_nonempty)
qed

lemma glitch_frames_ok:
  assumes "text \<noteq> []" and "min_chars \<le> max_chars"
  shows "\<exists>ws g'. glitch_frames n text color row x min_chars max_chars g = Inr (ws, g')
           \<and> length ws = n \<and> (\<forall>w\<in>set ws. op_row w = row)"
proof (induction n arbitrary: g)
  case 0
  then show ?case by simp
next
  case (Suc n)
  obtain k g1 where r: "randint min_chars max_chars g = Inr (k, g1)"
    using assms(2) by (simp add: randint_def)
  obtain s g2 where c: "glitch_chars (nat k) text g1 = Inr (s, g2)"
    using glitch_chars_ok [OF assms(1)] by blast
  obtain ws g3 where f: "glitch_frames n text color row x min_chars max_chars g2 = Inr (ws, g3)"
    and l: "length ws = n" and rows: "\<forall>w\<in>set ws. op_row w = row"
    using Suc.IH by blast
  show ?case by (simp add: r c f l rows)
qed

lemma glitch_line_ok:
  assumes "text \<noteq> []" and "min_chars \<le> max_chars" and "min_frames \<le> max_frames"
  shows "\<exists>ws g'. glitch_line text color row x min_chars max_chars min_frames max_frames g
             = Inr (ws, g')
           \<and> nat min_frames \<le> length ws \<and> length ws \<le> nat max_frames
           \<and> (\<forall>w\<in>set ws. op_row w = row)"
proof -
  obtain k g1 where r: "randint min_frames max_frames g = Inr (k, g1)"
    using assms(3) by (simp add: randint_def)
  then have "min_frames \<le> k \<and> k \<le> max_frames"
    using randint_Inr_bounds by blast
  then have b: "nat min_frames \<le> nat k \<and> nat k \<le> nat max_frames"
    by linarith
  obtain ws g' where "glitch_frames (nat k) text color row x min_chars max_chars g1 = Inr (ws, g')"
    and "length ws = nat k" and "\<forall>w\<in>set ws. op_row w = row"
    using glitch_frames_ok [OF assms(1,2)] by blast
  with b r show ?thesis by (simp add: glitch_line_def)
qed

subsection \<open>Facts about the layout\<close>

lemma status_row_val: "status_row = 9"
  by (simp add: status_row_def HEADER_def)

lemma base_row_val: "base_row = 11"
  by (simp add: base_row_def status_row_val)

lemma live_feed_row_val: "live_feed_row = 8"
  by (simp add: live_feed_row_def status_row_val)

lemma length_system_lines: "length (system_lines fixed cpu mem load uptime) = 7"
  by (simp add: system_lines_def)

lemma draw_parts_rows: "w \<in> set (draw_parts r x parts) \<Longrightarrow> op_row w = r"
  by (induction r x parts rule: draw_parts.induct) auto

lemma draw_parts_texts: "map op_text (draw_parts r x parts) = map fst parts"
  by (induction r x parts rule: draw_parts.induct) auto

lemma draw_parts_attrs: "map op_attr (draw_parts r x parts) = map snd parts"
  by (induction r x parts rule: draw_parts.induct) auto

lemma draw_parts_cols: "map op_col (draw_parts r x parts) = starts x (map fst parts)"
  by (induction r x parts rule: draw_parts.induct) auto

lemma line_parts_Inr:
  assumes "line_parts fixed p = Inr parts"
  shows "\<exists>c m. p_cpu p = Some c \<and> p_mem p = Some m
           \<and> parts = [(rjust (str_int (p_pid p)) 5 @ '' '', color_pair 8),
                       (ljust (p_user p) 8 @ '' '', color_pair 8),
                       (rjust (fixed 1 c) 5 @ '' '', cpu_color c),
                       (rjust (fixed 1 m) 5 @ '' '', mem_color m),
                       (rjust (p_time p) 9 @ '' '', color_pair 8),
                       (ljust (p_name p) 20, color_pair 8)]"
  using assms by (auto simp: line_parts_def split: option.splits)

lemma line_parts_ok:
  "p_cpu p \<noteq> None \<Longrightarrow> p_mem p \<noteq> None \<Longrightarrow> \<exists>parts. line_parts fixed p = Inr parts"
  by (auto simp: line_parts_def split: option.splits)

lemma draw_rows_rows:
  "draw_rows fixed r ips = Inr ops \<Longrightarrow> w \<in> set ops \<Longrightarrow>
   \<exists>i p. (i, p) \<in> set ips \<and> op_row w = r + i"
proof (induction ips arbitrary: ops)
  case Nil
  then show ?case by simp
next
  case (Cons ip ips)
  obtain j q where ip: "ip = (j, q)" by (cases ip)
  from Cons.prems(1) obtain parts ops' where
    rest: "draw_rows fixed r ips = Inr ops'"
    and ops: "ops = draw_parts (r + j) 4 parts @ ops'"
    by (auto simp: ip split: sum.splits)
  from Cons.prems(2) ops consider "w \<in> set (draw_parts (r + j) 4 parts)" | "w \<in> set ops'"
    by auto
  then show ?case
  proof cases
    case 1
    then show ?thesis using draw_parts_rows [OF 1] ip by auto
  next
    case 2
    from Cons.IH [OF rest 2] show ?thesis by auto
  qed
qed

lemma draw_rows_row:
  "draw_rows fixed r ips = Inr ops \<Longrightarrow> distinct (map fst ips) \<Longrightarrow> (i, p) \<in> set ips \<Longrightarrow>
   \<exists>parts. line_parts fixed p = Inr parts
     \<and> filter (\<lambda>w. op_row w = r + i) ops = draw_parts (r + i) 4 parts"
proof (induction ips arbitrary: ops)
  case Nil
  then show ?case by simp
next
  case (Cons ip ips)
  obtain j q where ip: "ip = (j, q)" by (cases ip)
  from Cons.prems(1) obtain parts ops' where
    lp: "line_parts fixed q = Inr parts"
    and rest: "draw_rows fixed r ips = Inr ops'"
    and ops: "ops = draw_parts (r + j) 4 parts @ ops'"
    by (auto simp: ip split: sum.splits)
  from Cons.prems(2) have d: "distinct (map fst ips)" and nj: "j \<notin> fst ` set ips"
    by (simp_all add: ip)
  show ?case
  proof (cases "(i, p) = (j, q)")
    case True
    have a: "filter (\<lambda>w. op_row w = r + j) (draw_parts (r + j) 4 parts)
        = draw_parts (r + j) 4 parts"
      using draw_parts_rows [of _ "r + j" 4 parts] by (auto simp: filter_id_conv)
    have b: "filter (\<lambda>w. op_row w = r + j) ops' = []"
    proof -
      have "op_row w \<noteq> r + j" if "w \<in> set ops'" for w
        using draw_rows_rows [OF rest that] nj by force
      then show ?thesis by (auto simp: filter_empty_conv)
    qed
    from True lp a b show ?thesis by (simp add: ops)
  next
    case False
    with Cons.prems(3) have m: "(i, p) \<in> set ips" by (auto simp: ip)
    then have "i \<noteq> j" using nj by force
    then have a: "filter (\<lambda>w. op_row w = r + i) (draw_parts (r + j) 4 parts) = []"
      using draw_parts_rows [of _ "r + j" 4 parts] by (auto simp: filter_empty_conv)
    from Cons.IH [OF rest d m] a show ?thesis by (simp add: ops)
  qed
qed

lemma draw_rows_ok:
  "\<forall>(i, p)\<in>set ips. p_cpu p \<noteq> None \<and> p_mem p \<noteq> None \<Longrightarrow>
   \<exists>ops. draw_rows fixed r ips = Inr ops"
proof (induction ips)
  case Nil
  then show ?case by simp
next
  case (Cons ip ips)
  obtain j q where ip: "ip = (j, q)" by (cases ip)
  from Cons.prems obtain parts where "line_parts fixed q = Inr parts"
    using line_parts_ok [of q fixed] by (auto simp: ip)
  moreover from Cons obtain ops where "draw_rows fixed r ips = Inr ops"
    by auto
  ultimately show ?case by (simp add: ip)
qed

lemma draw_process_rows_rows:
  assumes "draw_process_rows fixed r processes = Inr rows" and "w \<in> set rows"
  shows "r \<le> op_row w \<and> op_row w < r + TOP_N_PROCS"
proof -
  from assms obtain i p where ip: "(i, p) \<in> set (enumerate 0 (shown_processes processes))"
    and w: "op_row w = r + i"
    unfolding draw_process_rows_def using draw_rows_rows by blast
  from ip have "i < length (shown_processes processes)"
    by (simp add: in_set_enumerate_eq)
  then have "i < TOP_N_PROCS"
    by (simp add: shown_processes_def)
  with w show ?thesis by simp
qed

lemma draw_process_rows_row:
  assumes "draw_process_rows fixed r processes = Inr rows"
    and "i < length (shown_processes processes)"
  shows "\<exists>parts. line_parts fixed (processes ! i) = Inr parts
           \<and> filter (\<lambda>w. op_row w = r + i) rows = draw_parts (r + i) 4 parts"
proof -
  have s: "shown_processes processes ! i = processes ! i"
    using assms(2) by (simp add: shown_processes_def)
  have m: "(i, processes ! i) \<in> set (enumerate 0 (shown_processes processes))"
    using assms(2) s by (simp add: in_set_enumerate_eq)
  have d: "distinct (map fst (enumerate 0 (shown_processes processes)))"
    by simp
  from draw_rows_row [OF assms(1) [unfolded draw_process_rows_def] d m]
  show ?thesis .
qed

lemma draw_process_rows_none:
  assumes "draw_process_rows fixed r processes = Inr rows"
    and "length (shown_processes processes) \<le> i"
  shows "filter (\<lambda>w. op_row w = r + i) rows = []"
proof -
  have "op_row w \<noteq> r + i" if "w \<in> set rows" for w
  proof -
    from assms(1) that obtain j p where
      jp: "(j, p) \<in> set (enumerate 0 (shown_processes processes))" and w: "op_row w = r + j"
      unfolding draw_process_rows_def using draw_rows_rows by blast
    from jp have "j < length (shown_processes processes)"
      by (simp add: in_set_enumerate_eq)
    with assms(2) w show ?thesis by simp
  qed
  then show ?thesis by (auto simp: filter_empty_conv)
qed

lemma draw_process_rows_ok:
  assumes "\<forall>p\<in>set processes. p_cpu p \<noteq> None \<and> p_mem p \<noteq> None"
  shows "\<exists>rows. draw_process_rows fixed r processes = Inr rows"
proof -
  have "\<forall>(i, p)\<in>set (enumerate 0 (shown_processes processes)).
      p_cpu p \<noteq> None \<and> p_mem p \<noteq> None"
  proof (clarify)
    fix i p
    assume "(i, p) \<in> set (enumerate 0 (shown_processes processes))"
    then have "p \<in> set (shown_processes processes)"
      by (auto simp: in_set_enumerate_eq)
    then have "p \<in> set processes"
      unfolding shown_processes_def by (rule in_set_takeD)
    with assms show "p_cpu p \<noteq> None \<and> p_mem p \<noteq> None" by blast
  qed
  then show ?thesis
    unfolding draw_process_rows_def by (rule draw_rows_ok)
qed

lemma draw_system_lines_rows:
  assumes "w \<in> set (draw_system_lines ls)"
  shows "base_row \<le> op_row w \<and> op_row w < base_row + length ls"
  using assms by (auto simp: draw_system_lines_def in_set_enumerate_eq)

lemma draw_log_rows: "w \<in> set (draw_log r ls) \<Longrightarrow> r \<le> op_row w"
  by (auto simp: draw_log_def in_set_enumerate_eq)

lemma map_snd_fun_enumerate: "map (\<lambda>x. f (snd x)) (enumerate n xs) = map f xs"
  by (induction xs arbitrary: n) simp_all

lemma draw_log_texts: "map op_text (draw_log r ls) = map (\<lambda>l. ljust l 60) ls"
  using map_snd_fun_enumerate [of "\<lambda>l. ljust l 60" 0 ls]
  by (simp add: draw_log_def split_beta o_def)

subsection \<open>Facts about the schedule check\<close>

lemma status_line_nonempty: "''SYSTEM STATUS: '' @ v \<noteq> []"
  by simp

lemma status_glitch_result:
  assumes "text \<noteq> []"
  shows "\<exists>frames g'.
           status_glitch text color last_time now_check now_reset g
             = Inr (frames,
                    (if now_check - last_time > fst (uniform MIN_WAIT MAX_WAIT g)
                     then now_reset else last_time), g')
           \<and> (\<forall>w\<in>set frames. op_row w = status_row)
           \<and> (if now_check - last_time > fst (uniform MIN_WAIT MAX_WAIT g)
               then 3 \<le> length frames \<and> length frames \<le> 6
               else frames = [] \<and> g' = stl g)"
proof (cases "now_check - last_time > fst (uniform MIN_WAIT MAX_WAIT g)")
  case True
  have "\<exists>ws g'.
      glitch_line text color status_row 4 MIN_GLITCH_CHARS MAX_GLITCH_CHARS MIN_FRAMES MAX_FRAMES
        (snd (uniform MIN_WAIT MAX_WAIT g)) = Inr (ws, g')
      \<and> 3 \<le> length ws \<and> length ws \<le> 6 \<and> (\<forall>w\<in>set ws. op_row w = status_row)"
    using glitch_line_ok [OF assms, of 1 6 3 6 color status_row 4
        "snd (uniform MIN_WAIT MAX_WAIT g)"]
    by (simp add: MIN_GLITCH_CHARS_def MAX_GLITCH_CHARS_def MIN_FRAMES_def MAX_FRAMES_def)
  then obtain ws g' where
    "glitch_line text color status_row 4 MIN_GLITCH_CHARS MAX_GLITCH_CHARS MIN_FRAMES MAX_FRAMES
       (snd (uniform MIN_WAIT MAX_WAIT g)) = Inr (ws, g')"
    and "3 \<le> length ws \<and> length ws \<le> 6"
    and "\<forall>w\<in>set ws. op_row w = status_row"
    by blast
  with True show ?thesis
    by (simp add: status_glitch_def split_beta)
next
  case False
  then show ?thesis
    using uniform_bounds [of MIN_WAIT MAX_WAIT g]
    by (simp add: status_glitch_def split_beta MIN_WAIT_def MAX_WAIT_def)
qed

lemma status_glitch_rows:
  assumes "status_glitch text color last_time now_check now_reset g = Inr (frames, t, g')"
    and "text \<noteq> []"
  shows "\<forall>w\<in>set frames. op_row w = status_row"
  using status_glitch_result [OF assms(2), of color last_time now_check now_reset g] assms(1)
  by auto

subsection \<open>Facts about the process list\<close>

lemma make_entry_Inl: "make_entry fl info = Inl e \<Longrightarrow> e = AttributeError \<or> e = TypeError"
  by (auto simp: make_entry_def Let_def split: option.splits prod.splits)

lemma make_entry_denied: "info_cpu_times info = None \<Longrightarrow> make_entry fl info = Inl AttributeError"
  by (simp add: make_entry_def)

lemma make_entry_complete:
  assumes "complete info"
  shows "\<exists>entry. make_entry fl info = Inr entry \<and> p_cpu entry \<noteq> None \<and> p_mem entry \<noteq> None"
  using assms by (auto simp: make_entry_def complete_def Let_def split: prod.splits)

lemma collect_processes_Inr:
  "collect_processes fl acc infos = Inr processes \<Longrightarrow>
   map Inr processes = map Inr acc @ map (make_entry fl) infos"
proof (induction infos arbitrary: acc)
  case Nil
  then show ?case by simp
next
  case (Cons info infos)
  show ?case
  proof (cases "make_entry fl info")
    case (Inl e)
    with Cons.prems make_entry_Inl [OF Inl] show ?thesis by auto
  next
    case (Inr entry)
    with Cons.prems have "collect_processes fl (acc @ [entry]) infos = Inr processes"
      by simp
    from Cons.IH [OF this] Inr show ?thesis by simp
  qed
qed

lemma collect_processes_denied:
  "info \<in> set infos \<Longrightarrow> info_cpu_times info = None \<Longrightarrow>
   \<exists>e. collect_processes fl acc infos = Inl e \<and> (e = AttributeError \<or> e = TypeError)"
proof (induction infos arbitrary: acc)
  case Nil
  then show ?case by simp
next
  case (Cons x infos)
  show ?case
  proof (cases "make_entry fl x")
    case (Inl e)
    with make_entry_Inl [OF Inl] show ?thesis by auto
  next
    case (Inr entry)
    with Cons.prems(2) have "x \<noteq> info"
      using make_entry_denied [of info fl] by auto
    with Cons.prems(1) have "info \<in> set infos" by simp
    from Cons.IH [OF this Cons.prems(2)] Inr show ?thesis by simp
  qed
qed

lemma collect_processes_complete:
  "list_all complete infos \<Longrightarrow>
   \<exists>entries. collect_processes fl acc infos = Inr (acc @ entries)
     \<and> (\<forall>p\<in>set entries. p_cpu p \<noteq> None \<and> p_mem p \<noteq> None)"
proof (induction infos arbitrary: acc)
  case Nil
  then show ?case by simp
next
  case (Cons info infos)
  from Cons.prems have ci: "complete info" and cs: "list_all complete infos"
    by simp_all
  obtain entry where e: "make_entry fl info = Inr entry"
    and c: "p_cpu entry \<noteq> None \<and> p_mem entry \<noteq> None"
    using make_entry_complete [OF ci, of fl] by blast
  obtain entries where
    r: "collect_processes fl (acc @ [entry]) infos = Inr ((acc @ [entry]) @ entries)"
    and a: "\<forall>p\<in>set entries. p_cpu p \<noteq> None \<and> p_mem p \<noteq> None"
    using Cons.IH [OF cs, of "acc @ [entry]"] by blast
  show ?case
    using e c r a by (intro exI [of _ "entry # entries"]) simp
qed

lemma sort_by_cpu_Inr:
  assumes "sort_by_cpu ps = Inr srt"
  shows "srt = rev (sort_key cpu_key (rev ps))
       \<and> (length ps < 2 \<or> (\<forall>p\<in>set ps. p_cpu p = Some (cpu_key p)))"
proof -
  from assms have s: "srt = rev (sort_key cpu_key (rev ps))"
    and n: "\<not> (2 \<le> length ps \<and> list_ex (\<lambda>p. p_cpu p = None) ps)"
    by (auto simp: sort_by_cpu_def split: if_splits)
  have "\<forall>p\<in>set ps. p_cpu p = Some (cpu_key p)" if "2 \<le> length ps"
  proof
    fix p assume "p \<in> set ps"
    with n that have "p_cpu p \<noteq> None" by (auto simp: list_ex_iff)
    then show "p_cpu p = Some (cpu_key p)" by (auto simp: cpu_key_def)
  qed
  with s show ?thesis by auto
qed

lemma sort_by_cpu_mset: "sort_by_cpu ps = Inr srt \<Longrightarrow> mset srt = mset ps"
  using sort_by_cpu_Inr by fastforce

lemma sort_short: "length ps < 2 \<Longrightarrow> rev (sort_key f (rev ps)) = ps"
  by (cases ps; cases "tl ps") auto

lemma sort_by_cpu_stable:
  assumes "sort_by_cpu ps = Inr srt"
  shows "filter (\<lambda>p. p_cpu p = c) srt = filter (\<lambda>p. p_cpu p = c) ps"
proof -
  note r = sort_by_cpu_Inr [OF assms]
  show ?thesis
  proof (cases "length ps < 2")
    case True
    with r sort_short [OF True, of cpu_key] show ?thesis by simp
  next
    case False
    with r have k: "\<forall>p\<in>set ps. p_cpu p = Some (cpu_key p)" by blast
    show ?thesis
    proof (cases c)
      case None
      with k have "filter (\<lambda>p. p_cpu p = c) ps = []"
        by (auto simp: filter_empty_conv)
      moreover have "set srt = set ps"
        using r by simp
      ultimately show ?thesis
        using k None by (auto simp: filter_empty_conv)
    next
      case (Some x)
      have e: "filter (\<lambda>p. p_cpu p = c) qs = filter (\<lambda>p. cpu_key p = x) qs"
        if "set qs \<subseteq> set ps" for qs
        using that k Some by (intro filter_cong) auto
      have "filter (\<lambda>p. cpu_key p = x) srt = filter (\<lambda>p. cpu_key p = x) ps"
        using r by (simp add: sort_key_stable flip: rev_filter)
      moreover have "set srt \<subseteq> set ps" using r by simp
      ultimately show ?thesis using e [of srt] e [of ps] by simp
    qed
  qed
qed

lemma sort_by_cpu_sorted:
  assumes "sort_by_cpu ps = Inr srt"
  shows "sorted_wrt (\<lambda>a b. \<exists>x y. p_cpu a = Some x \<and> p_cpu b = Some y \<and> y \<le> x) srt"
proof -
  note r = sort_by_cpu_Inr [OF assms]
  show ?thesis
  proof (cases "length ps < 2")
    case True
    then have "srt = ps" using r sort_short [OF True, of cpu_key] by simp
    with True show ?thesis by (cases ps; cases "tl ps") auto
  next
    case False
    with r have k: "\<forall>p\<in>set ps. p_cpu p = Some (cpu_key p)" by blast
    have "sorted (map cpu_key (sort_key cpu_key (rev ps)))" by simp
    then have "sorted_wrt (\<lambda>a b. cpu_key a \<le> cpu_key b) (sort_key cpu_key (rev ps))"
      by (simp add: sorted_wrt_map)
    then have "sorted_wrt (\<lambda>a b. cpu_key b \<le> cpu_key a) srt"
      using r by (simp add: sorted_wrt_rev)
    moreover have "set srt = set ps" using r by simp
    ultimately show ?thesis
      using k by (auto elim!: sorted_wrt_mono_rel [rotated])
  qed
qed

lemma sort_by_cpu_ok:
  assumes "\<forall>p\<in>set ps. p_cpu p \<noteq> None \<and> p_mem p \<noteq> None"
  shows "\<exists>srt. sort_by_cpu ps = Inr srt
           \<and> (\<forall>p\<in>set srt. p_cpu p \<noteq> None \<and> p_mem p \<noteq> None)"
proof -
  have "\<not> list_ex (\<lambda>p. p_cpu p = None) ps"
    using assms by (auto simp: list_ex_iff)
  then show ?thesis
    using assms by (simp add: sort_by_cpu_def)
qed

lemma collect_processes_first_denied:
  "list_all complete before \<Longrightarrow> info_cpu_times info = None \<Longrightarrow>
   collect_processes fl acc (before @ info # after) = Inl AttributeError"
proof (induction before arbitrary: acc)
  case Nil
  then show ?case by (simp add: make_entry_denied)
next
  case (Cons x before)
  from Cons.prems have cx: "complete x" and cs: "list_all complete before"
    by simp_all
  obtain entry where e: "make_entry fl x = Inr entry"
    using make_entry_complete [OF cx, of fl] by blast
  from Cons.IH [OF cs Cons.prems(2), of "acc @ [entry]"] e show ?case by simp
qed

lemma collect_processes_length:
  "collect_processes fl acc infos = Inr processes \<Longrightarrow>
   length processes = length acc + length infos"
  using collect_processes_Inr [of fl acc infos processes]
  by (metis length_append length_map)

subsection \<open>Facts about the log buffer\<close>

lemma log_append_full:
  "length buf = MAX_LOG_LINES \<Longrightarrow> log_append buf m = tl buf @ [m]"
  by (cases buf) (simp_all add: log_append_def MAX_LOG_LINES_def)

lemma log_append_room:
  "length buf < MAX_LOG_LINES \<Longrightarrow> log_append buf m = buf @ [m]"
  by (simp add: log_append_def)

lemma log_append_drop:
  "length buf \<le> MAX_LOG_LINES \<Longrightarrow>
   log_append buf m = drop (length (buf @ [m]) - MAX_LOG_LINES) (buf @ [m])"
  by (cases buf) (auto simp: log_append_def Let_def MAX_LOG_LINES_def drop_Cons' )

lemma length_log_append:
  "length buf \<le> MAX_LOG_LINES \<Longrightarrow> length (log_append buf m) \<le> MAX_LOG_LINES"
  by (auto simp: log_append_def Let_def)

lemma last_log_append: "last (log_append buf m) = m \<and> log_append buf m \<noteq> []"
proof (cases "length (buf @ [m]) > MAX_LOG_LINES")
  case True
  then obtain x y rest where "buf = x # y # rest"
    by (cases buf; cases "tl buf") (auto simp: MAX_LOG_LINES_def)
  then show ?thesis by (simp add: log_append_def Let_def)
next
  case False
  then show ?thesis by (simp add: log_append_def Let_def)
qed

lemma drop_keep_append:
  "drop (length (drop (length xs - n) xs @ ys) - n) (drop (length xs - n) xs @ ys)
     = drop (length (xs @ ys) - n) (xs @ ys)"
proof (cases "length xs \<le> n")
  case True
  then show ?thesis by simp
next
  case False
  then have "length (drop (length xs - n) xs @ ys) - n = length ys" by simp
  moreover have "length (xs @ ys) - n = length ys + (length xs - n)"
    using False by simp
  ultimately show ?thesis using False by (simp add: add.commute)
qed

lemma foldl_log_append:
  "length buf \<le> MAX_LOG_LINES \<Longrightarrow>
   foldl log_append buf ms = drop (length (buf @ ms) - MAX_LOG_LINES) (buf @ ms)"
proof (induction ms arbitrary: buf)
  case Nil
  then show ?case by simp
next
  case (Cons m ms)
  have l: "length (log_append buf m) \<le> MAX_LOG_LINES"
    using Cons.prems by (simp add: log_append_drop)
  have "foldl log_append (log_append buf m) ms
      = drop (length (log_append buf m @ ms) - MAX_LOG_LINES) (log_append buf m @ ms)"
    by (rule Cons.IH [OF l])
  also have "\<dots> = drop (length ((buf @ [m]) @ ms) - MAX_LOG_LINES) ((buf @ [m]) @ ms)"
    unfolding log_append_drop [OF Cons.prems] by (rule drop_keep_append)
  finally show ?case by simp
qed

subsection \<open>Facts about one iteration\<close>

lemma generate_device_id_ok:
  "\<exists>s. generate_device_id g = Inr (s, stl (stl (stl g)))"
  by (simp add: generate_device_id_def randint_def)

lemma tick_eq: "\<exists>live_feed. tick fl st inp = tick_flat fl st inp live_feed"
proof -
  obtain s where d: "generate_device_id (st_rng st) = Inr (s, sdrop 3 (st_rng st))"
    using generate_device_id_ok [of "st_rng st"] by (auto simp: sdrop_3)
  show ?thesis
    unfolding tick_def Let_def d tick_flat_def tick_ops_def
    by (intro exI [of _ s])
      (simp add: status_row_val base_row_val live_feed_row_val length_system_lines
        TOP_N_PROCS_def cong: sum.case_cong prod.case_cong)
qed

lemma tick_ContinueD:
  assumes "tick fl st inp = Inr (Continue st' ws)"
  shows "\<exists>live_feed frames unsorted processes rows.
      status_glitch (''SYSTEM STATUS: '' @ get_system_status (in_cpu inp) (in_mem inp))
        (status_color (get_system_status (in_cpu inp) (in_mem inp)))
        (st_last_status_glitch_time st) (in_now_check inp) (in_now_reset inp)
        (sdrop 3 (st_rng st))
        = Inr (frames, st_last_status_glitch_time st', st_rng st')
    \<and> collect_processes fl [] (in_procs inp) = Inr unsorted
    \<and> sort_by_cpu unsorted = Inr processes
    \<and> draw_process_rows (fl_fixed fl) 19 processes = Inr rows
    \<and> st_log_lines st'
        = log_append (st_log_lines st)
            (log_message (fl_fixed fl) (in_strftime inp) (in_cpu inp) (in_mem inp))
    \<and> ws = tick_ops fl inp live_feed frames rows (st_log_lines st')"
proof -
  obtain live_feed where e: "tick fl st inp = tick_flat fl st inp live_feed"
    using tick_eq by blast
  from assms show ?thesis
    unfolding e tick_flat_def
    by (auto split: if_splits sum.splits prod.splits)
qed

lemma tick_ops_log_block:
  assumes "\<forall>w\<in>set frames. op_row w = status_row"
    and "\<forall>w\<in>set rows. 19 \<le> op_row w \<and> op_row w < 19 + TOP_N_PROCS"
  shows "filter (\<lambda>w. 46 \<le> op_row w) (tick_ops fl inp live_feed frames rows logged)
           = draw_log 46 logged"
proof -
  have a: "filter (\<lambda>w. 46 \<le> op_row w) frames = []"
    using assms(1) by (auto simp: filter_empty_conv status_row_val)
  have b: "filter (\<lambda>w. 46 \<le> op_row w) (draw_system_lines ls) = []"
    if "length ls = 7" for ls
    using draw_system_lines_rows [of _ ls] that
    by (fastforce simp: filter_empty_conv base_row_val)
  have c: "filter (\<lambda>w. 46 \<le> op_row w) rows = []"
    using assms(2) by (fastforce simp: filter_empty_conv TOP_N_PROCS_def)
  have d: "filter (\<lambda>w. 46 \<le> op_row w) (draw_log 46 logged) = draw_log 46 logged"
    using draw_log_rows [of _ 46 logged] by (fastforce simp: filter_id_conv)
  show ?thesis
    by (simp add: tick_ops_def a b c d length_system_lines)
qed

lemma tick_ops_status_row:
  assumes "\<forall>w\<in>set frames. op_row w = status_row"
    and "\<forall>w\<in>set rows. 19 \<le> op_row w \<and> op_row w < 19 + TOP_N_PROCS"
  shows "length (filter (\<lambda>w. op_row w = status_row)
                   (tick_ops fl inp live_feed frames rows logged))
           = Suc (length frames)"
proof -
  have a: "filter (\<lambda>w. op_row w = status_row) frames = frames"
    using assms(1) by (auto simp: filter_id_conv)
  have b: "filter (\<lambda>w. op_row w = status_row) (draw_system_lines ls) = []" for ls
    using draw_system_lines_rows [of _ ls]
    by (fastforce simp: filter_empty_conv base_row_val status_row_val)
  have c: "filter (\<lambda>w. op_row w = status_row) rows = []"
    using assms(2) by (fastforce simp: filter_empty_conv status_row_val)
  have d: "filter (\<lambda>w. op_row w = status_row) (draw_log 46 logged) = []"
    using draw_log_rows [of _ 46 logged] by (fastforce simp: filter_empty_conv status_row_val)
  show ?thesis
    by (simp add: tick_ops_def a b c d) (simp add: status_row_val)
qed

lemma tick_ops_table_row:
  assumes "\<forall>w\<in>set frames. op_row w = status_row" and "i < TOP_N_PROCS"
  shows "filter (\<lambda>w. op_row w = 19 + i) (tick_ops fl inp live_feed frames rows logged)
           = filter (\<lambda>w. op_row w = 19 + i) rows"
proof -
  let ?P = "\<lambda>w. op_row w = 19 + i"
  have a: "filter ?P frames = []"
    using assms(1) by (auto simp: filter_empty_conv status_row_val)
  have b: "filter ?P (draw_system_lines ls) = []" if "length ls = 7" for ls
    using draw_system_lines_rows [of _ ls] that
    by (fastforce simp: filter_empty_conv base_row_val)
  have d: "filter ?P (draw_log 46 logged) = []"
    using draw_log_rows [of _ 46 logged] assms(2)
    by (fastforce simp: filter_empty_conv TOP_N_PROCS_def)
  show ?thesis
    using assms(2) by (simp add: tick_ops_def a b d length_system_lines TOP_N_PROCS_def)
qed

lemma tick_total:
  assumes "in_key inp \<noteq> Some 113" and "list_all complete (in_procs inp)"
  shows "\<exists>st' ws. tick fl st inp = Inr (Continue st' ws)"
proof -
  obtain frames t g' where
    "status_glitch (''SYSTEM STATUS: '' @ get_system_status (in_cpu inp) (in_mem inp))
        (status_color (get_system_status (in_cpu inp) (in_mem inp)))
        (st_last_status_glitch_time st) (in_now_check inp) (in_now_reset inp)
        (sdrop 3 (st_rng st))
      = Inr (frames, t, g')"
    using status_glitch_result [OF status_line_nonempty] by blast
  moreover obtain unsorted where
    "collect_processes fl [] (in_procs inp) = Inr unsorted"
    and u: "\<forall>p\<in>set unsorted. p_cpu p \<noteq> None \<and> p_mem p \<noteq> None"
    using collect_processes_complete [OF assms(2), of fl "[]"] by auto
  moreover obtain processes where
    "sort_by_cpu unsorted = Inr processes"
    and p: "\<forall>p\<in>set processes. p_cpu p \<noteq> None \<and> p_mem p \<noteq> None"
    using sort_by_cpu_ok [OF u] by blast
  moreover obtain rows where "draw_process_rows (fl_fixed fl) 19 processes = Inr rows"
    using draw_process_rows_ok [OF p] by blast
  moreover obtain live_feed where "tick fl st inp = tick_flat fl st inp live_feed"
    using tick_eq by blast
  ultimately show ?thesis
    using assms(1) by (simp add: tick_flat_def)
qed

lemma tick_denied:
  assumes "info \<in> set (in_procs inp)" and "info_cpu_times info = None"
    and "in_key inp \<noteq> Some 113"
  shows "\<exists>e. tick fl st inp = Inl e \<and> (e = AttributeError \<or> e = TypeError)"
proof -
  obtain frames t g' where
    "status_glitch (''SYSTEM STATUS: '' @ get_system_status (in_cpu inp) (in_mem inp))
        (status_color (get_system_status (in_cpu inp) (in_mem inp)))
        (st_last_status_glitch_time st) (in_now_check inp) (in_now_reset inp)
        (sdrop 3 (st_rng st))
      = Inr (frames, t, g')"
    using status_glitch_result [OF status_line_nonempty] by blast
  moreover obtain e where
    "collect_processes fl [] (in_procs inp) = Inl e" "e = AttributeError \<or> e = TypeError"
    using collect_processes_denied [OF assms(1,2), of fl "[]"] by blast
  moreover obtain live_feed where "tick fl st inp = tick_flat fl st inp live_feed"
    using tick_eq by blast
  ultimately show ?thesis
    using assms(3) by (simp add: tick_flat_def)
qed

lemma tick_first_denied:
  assumes "list_all complete before" and "info_cpu_times info = None"
    and "in_key inp \<noteq> Some 113"
  shows "tick fl st (inp\<lparr>in_procs := before @ info # after\<rparr>) = Inl AttributeError"
proof -
  let ?inp = "inp\<lparr>in_procs := before @ info # after\<rparr>"
  obtain frames t g' where
    "status_glitch (''SYSTEM STATUS: '' @ get_system_status (in_cpu ?inp) (in_mem ?inp))
        (status_color (get_system_status (in_cpu ?inp) (in_mem ?inp)))
        (st_last_status_glitch_time st) (in_now_check ?inp) (in_now_reset ?inp)
        (sdrop 3 (st_rng st))
      = Inr (frames, t, g')"
    using status_glitch_result [OF status_line_nonempty] by blast
  moreover have "collect_processes fl [] (in_procs ?inp) = Inl AttributeError"
    using collect_processes_first_denied [OF assms(1,2), of fl "[]" after] by simp
  moreover obtain live_feed where "tick fl st ?inp = tick_flat fl st ?inp live_feed"
    using tick_eq by blast
  ultimately show ?thesis
    using assms(3) by (simp add: tick_flat_def)
qed

lemma tick_schedule:
  assumes "tick fl st inp = Inr (Continue st' ws)"
  shows "st_last_status_glitch_time st'
           = (if in_now_check inp - st_last_status_glitch_time st > drawn_wait st
              then in_now_reset inp else st_last_status_glitch_time st)
       \<and> (1 < length (filter (\<lambda>w. op_row w = status_row) ws))
           = (in_now_check inp - st_last_status_glitch_time st > drawn_wait st)
       \<and> (\<not> in_now_check inp - st_last_status_glitch_time st > drawn_wait st
            \<longrightarrow> st_rng st' = sdrop 4 (st_rng st))"
proof -
  let ?fires = "in_now_check inp - st_last_status_glitch_time st > drawn_wait st"
  let ?text = "''SYSTEM STATUS: '' @ get_system_status (in_cpu inp) (in_mem inp)"
  let ?color = "status_color (get_system_status (in_cpu inp) (in_mem inp))"
  obtain live_feed frames processes rows where
    sg: "status_glitch ?text ?color (st_last_status_glitch_time st) (in_now_check inp)
           (in_now_reset inp) (sdrop 3 (st_rng st))
         = Inr (frames, st_last_status_glitch_time st', st_rng st')"
    and dr: "draw_process_rows (fl_fixed fl) 19 processes = Inr rows"
    and ws: "ws = tick_ops fl inp live_feed frames rows (st_log_lines st')"
    using tick_ContinueD [OF assms] by blast
  have tr: "\<forall>w\<in>set rows. 19 \<le> op_row w \<and> op_row w < 19 + TOP_N_PROCS"
    using draw_process_rows_rows [OF dr] by blast
  obtain frames' g' where
    r: "status_glitch ?text ?color (st_last_status_glitch_time st) (in_now_check inp)
          (in_now_reset inp) (sdrop 3 (st_rng st))
        = Inr (frames', (if ?fires then in_now_reset inp else st_last_status_glitch_time st), g')"
    and rows: "\<forall>w\<in>set frames'. op_row w = status_row"
    and len: "if ?fires then 3 \<le> length frames' \<and> length frames' \<le> 6
              else frames' = [] \<and> g' = stl (sdrop 3 (st_rng st))"
    using status_glitch_result [OF status_line_nonempty, of _ ?color
        "st_last_status_glitch_time st" "in_now_check inp" "in_now_reset inp"
        "sdrop 3 (st_rng st)"]
    unfolding drawn_wait_def by blast
  from sg r have eq: "frames' = frames"
    "st_last_status_glitch_time st'
       = (if ?fires then in_now_reset inp else st_last_status_glitch_time st)"
    "g' = st_rng st'"
    by simp_all
  have n: "length (filter (\<lambda>w. op_row w = status_row) ws) = Suc (length frames)"
    unfolding ws using rows eq(1) tr by (intro tick_ops_status_row) simp_all
  have s4: "stl (sdrop 3 g) = sdrop 4 g" for g :: rng
    by (simp add: sdrop_3 eval_nat_numeral)
  show ?thesis
    using eq(2) n len eq(1,3) by (auto simp: s4 split: if_splits)
qed

lemma tick_log_block:
  assumes "tick fl st inp = Inr (Continue st' ws)"
  shows "st_log_lines st'
           = log_append (st_log_lines st)
               (log_message (fl_fixed fl) (in_strftime inp) (in_cpu inp) (in_mem inp))
       \<and> filter (\<lambda>w. 46 \<le> op_row w) ws = draw_log 46 (st_log_lines st')"
proof -
  let ?text = "''SYSTEM STATUS: '' @ get_system_status (in_cpu inp) (in_mem inp)"
  let ?color = "status_color (get_system_status (in_cpu inp) (in_mem inp))"
  obtain live_feed frames processes rows where
    sg: "status_glitch ?text ?color (st_last_status_glitch_time st) (in_now_check inp)
           (in_now_reset inp) (sdrop 3 (st_rng st))
         = Inr (frames, st_last_status_glitch_time st', st_rng st')"
    and dr: "draw_process_rows (fl_fixed fl) 19 processes = Inr rows"
    and lg: "st_log_lines st'
        = log_append (st_log_lines st)
            (log_message (fl_fixed fl) (in_strftime inp) (in_cpu inp) (in_mem inp))"
    and ws: "ws = tick_ops fl inp live_feed frames rows (st_log_lines st')"
    using tick_ContinueD [OF assms] by blast
  have tr: "\<forall>w\<in>set rows. 19 \<le> op_row w \<and> op_row w < 19 + TOP_N_PROCS"
    using draw_process_rows_rows [OF dr] by blast
  have rows: "\<forall>w\<in>set frames. op_row w = status_row"
    using status_glitch_rows [OF sg] by simp
  show ?thesis
    unfolding ws using lg tick_ops_log_block [OF rows tr] by simp
qed

lemma tick_last_op:
  assumes "tick fl st inp = Inr (Continue st' ws)"
  shows "last ws = last (draw_log 46 (st_log_lines st'))"
proof -
  obtain live_feed frames rows where
    lg: "st_log_lines st'
        = log_append (st_log_lines st)
            (log_message (fl_fixed fl) (in_strftime inp) (in_cpu inp) (in_mem inp))"
    and ws: "ws = tick_ops fl inp live_feed frames rows (st_log_lines st')"
    using tick_ContinueD [OF assms] by blast
  have "st_log_lines st' \<noteq> []"
    unfolding lg using last_log_append by blast
  then have "draw_log 46 (st_log_lines st') \<noteq> []"
    by (cases "st_log_lines st'") (simp_all add: draw_log_def)
  then show ?thesis
    unfolding ws tick_ops_def by simp
qed

lemma tick_table:
  assumes "tick fl st inp = Inr (Continue st' ws)"
  shows "\<exists>unsorted processes.
      collect_processes fl [] (in_procs inp) = Inr unsorted
    \<and> sort_by_cpu unsorted = Inr processes
    \<and> (\<forall>i<length (shown_processes processes).
         \<exists>parts. line_parts (fl_fixed fl) (processes ! i) = Inr parts
           \<and> filter (\<lambda>w. op_row w = 19 + i) ws = draw_parts (19 + i) 4 parts)
    \<and> (\<forall>i. length (shown_processes processes) \<le> i \<and> i < TOP_N_PROCS
         \<longrightarrow> filter (\<lambda>w. op_row w = 19 + i) ws = [])"
proof -
  obtain live_feed frames unsorted processes rows where
    sg: "status_glitch (''SYSTEM STATUS: '' @ get_system_status (in_cpu inp) (in_mem inp))
           (status_color (get_system_status (in_cpu inp) (in_mem inp)))
           (st_last_status_glitch_time st) (in_now_check inp)
           (in_now_reset inp) (sdrop 3 (st_rng st))
         = Inr (frames, st_last_status_glitch_time st', st_rng st')"
    and c: "collect_processes fl [] (in_procs inp) = Inr unsorted"
    and s: "sort_by_cpu unsorted = Inr processes"
    and dr: "draw_process_rows (fl_fixed fl) 19 processes = Inr rows"
    and ws: "ws = tick_ops fl inp live_feed frames rows (st_log_lines st')"
    using tick_ContinueD [OF assms] by blast
  have fr: "\<forall>w\<in>set frames. op_row w = status_row"
    using status_glitch_rows [OF sg] by simp
  have n: "length (shown_processes processes) \<le> TOP_N_PROCS"
    by (simp add: shown_processes_def)
  have a: "\<exists>parts. line_parts (fl_fixed fl) (processes ! i) = Inr parts
           \<and> filter (\<lambda>w. op_row w = 19 + i) ws = draw_parts (19 + i) 4 parts"
    if "i < length (shown_processes processes)" for i
  proof -
    from that n have "i < TOP_N_PROCS" by simp
    from tick_ops_table_row [OF fr this] draw_process_rows_row [OF dr that]
    show ?thesis unfolding ws by simp
  qed
  have b: "filter (\<lambda>w. op_row w = 19 + i) ws = []"
    if "length (shown_processes processes) \<le> i" and "i < TOP_N_PROCS" for i
    using tick_ops_table_row [OF fr that(2)] draw_process_rows_none [OF dr that(1)]
    unfolding ws by simp
  from c s a b show ?thesis by blast
qed

lemma draw_loop_log_bound:
  "draw_loop fl st inps = Inr (st', ws) \<Longrightarrow> length (st_log_lines st) \<le> MAX_LOG_LINES \<Longrightarrow>
   length (st_log_lines st') \<le> MAX_LOG_LINES"
proof (induction inps arbitrary: st ws)
  case Nil
  then show ?case by simp
next
  case (Cons inp inps)
  show ?case
  proof (cases "tick fl st inp")
    case (Inl e)
    with Cons.prems show ?thesis by simp
  next
    case (Inr out)
    show ?thesis
    proof (cases out)
      case Quit
      with Inr Cons.prems show ?thesis by simp
    next
      case (Continue st1 ws1)
      with Inr have t: "tick fl st inp = Inr (Continue st1 ws1)" by simp
      then have "st_log_lines st1 = log_append (st_log_lines st)
          (log_message (fl_fixed fl) (in_strftime inp) (in_cpu inp) (in_mem inp))"
        using tick_log_block by blast
      then have b: "length (st_log_lines st1) \<le> MAX_LOG_LINES"
        using Cons.prems(2) by (simp add: length_log_append)
      from Cons.prems(1) t obtain ws2 where "draw_loop fl st1 inps = Inr (st', ws2)"
        by (auto split: sum.splits)
      from Cons.IH [OF this b] show ?thesis .
    qed
  qed
qed

lemma drawn_wait_after:
  "st_rng st' = sdrop 4 (st_rng st) \<Longrightarrow>
   drawn_wait st' = fst (uniform MIN_WAIT MAX_WAIT (sdrop 7 (st_rng st)))"
  by (simp add: drawn_wait_def sdrop_add [symmetric])

subsection \<open>Facts about the sample run\<close>

lemma sample_in_complete:
  "in_key (sample_in now) \<noteq> Some 113 \<and> list_all complete (in_procs (sample_in now))"
  by (simp add: sample_in_def complete_def sample_proc_def)

lemma sample_tick_runs:
  "\<exists>st' ws. tick fl st (sample_in now) = Inr (Continue st' ws)"
  using sample_in_complete [of now] by (intro tick_total) simp_all

lemma sample_entries:
  "make_entry sample_fl (sample_proc n u c)
     = Inr ((sample_entry n c)
         \<lparr>p_user := (case u of None \<Rightarrow> ''?''
                        | Some v \<Rightarrow> if v = [] then ''?'' else take 8 v)\<rparr>)"
  by (simp add: make_entry_def sample_fl_def sample_proc_def sample_entry_def
      format_time_def divmod_def py_int_def fmt_0d_def zfill_def dec.simps digit_char_def)

lemma state_of_Continue: "r = Inr (Continue st' ws) \<Longrightarrow> state_of st r = st'"
  by (simp add: state_of_def)

lemma ops_of_Continue: "r = Inr (Continue st' ws) \<Longrightarrow> ops_of r = ws"
  by (simp add: ops_of_def)

lemma sample_state_last: "st_last_status_glitch_time sample_state = 0"
  by (simp add: sample_state_def)

lemma drawn_wait_sample: "drawn_wait sample_state = 59 / 8"
  by (simp add: drawn_wait_def sample_state_def uniform_def random_unit_def sdrop_3
      MIN_WAIT_def MAX_WAIT_def)

section \<open>The claims\<close>

subsection \<open>The glitch schedule\<close>

text \<open>
  C1, as the code has it. No wait is stored between iterations: every iteration draws
  its own wait from \<open>[MIN_WAIT, MAX_WAIT]\<close> in the schedule condition. The animation
  runs in an iteration (more than the one clean status line is written on the status
  row) if and only if the time since \<^verbatim>\<open>last_status_glitch_time\<close> exceeds the wait drawn in
  that iteration; \<^verbatim>\<open>last_status_glitch_time\<close> is reset, to the clock read after the
  animation, only when the animation ran and is unchanged otherwise; and after an
  iteration without animation the next wait is a later draw of the generator.
\<close>

theorem glitch_schedule_per_tick:
  assumes "tick fl st inp = Inr (Continue st' ws)"
  shows "MIN_WAIT \<le> drawn_wait st \<and> drawn_wait st \<le> MAX_WAIT
       \<and> (1 < length (filter (\<lambda>w. op_row w = status_row) ws))
           = (in_now_check inp - st_last_status_glitch_time st > drawn_wait st)
       \<and> st_last_status_glitch_time st'
           = (if in_now_check inp - st_last_status_glitch_time st > drawn_wait st
              then in_now_reset inp else st_last_status_glitch_time st)
       \<and> (\<not> in_now_check inp - st_last_status_glitch_time st > drawn_wait st
            \<longrightarrow> drawn_wait st' = fst (uniform MIN_WAIT MAX_WAIT (sdrop 7 (st_rng st))))"
proof -
  have "MIN_WAIT \<le> drawn_wait st \<and> drawn_wait st \<le> MAX_WAIT"
    using uniform_bounds [of MIN_WAIT MAX_WAIT "sdrop 3 (st_rng st)"]
    by (simp add: drawn_wait_def MIN_WAIT_def MAX_WAIT_def)
  then show ?thesis
    using tick_schedule [OF assms] drawn_wait_after [of st' st] by blast
qed

theorem glitch_schedule_per_tick_witness:
  "(\<exists>st' ws. tick sample_fl sample_state (sample_in 5) = Inr (Continue st' ws)
      \<and> 3 \<le> drawn_wait sample_state \<and> drawn_wait sample_state \<le> 8
      \<and> \<not> 1 < length (filter (\<lambda>w. op_row w = status_row) ws)
      \<and> st_last_status_glitch_time st' = 0
      \<and> drawn_wait st' = 3)
   \<and> (\<exists>st' ws. tick sample_fl sample_state (sample_in 9) = Inr (Continue st' ws)
      \<and> 1 < length (filter (\<lambda>w. op_row w = status_row) ws)
      \<and> st_last_status_glitch_time st' = 9 + 1 / 2)"
proof -
  obtain st1 ws1 where
    t1: "tick sample_fl sample_state (sample_in 5) = Inr (Continue st1 ws1)"
    using sample_tick_runs by blast
  have w7: "fst (uniform MIN_WAIT MAX_WAIT (sdrop 7 (st_rng sample_state))) = 3"
    by (simp add: sample_state_def uniform_def random_unit_def sdrop_7 MIN_WAIT_def)
  have a: "3 \<le> drawn_wait sample_state \<and> drawn_wait sample_state \<le> 8
     \<and> \<not> 1 < length (filter (\<lambda>w. op_row w = status_row) ws1)
     \<and> st_last_status_glitch_time st1 = 0
     \<and> drawn_wait st1 = 3"
    using glitch_schedule_per_tick [OF t1]
    by (simp add: drawn_wait_sample sample_in_def sample_state_last w7)
  obtain st2 ws2 where
    t2: "tick sample_fl sample_state (sample_in 9) = Inr (Continue st2 ws2)"
    using sample_tick_runs by blast
  have b: "1 < length (filter (\<lambda>w. op_row w = status_row) ws2)
     \<and> st_last_status_glitch_time st2 = 9 + 1 / 2"
    using glitch_schedule_per_tick [OF t2]
    by (simp add: drawn_wait_sample sample_in_def sample_state_last)
  show ?thesis
    using t1 a t2 b by blast
qed

text \<open>
  The specification's stored wait is contradicted by the sample run. The first iteration, 5 seconds after
  the last glitch, is checked against a wait of \<open>59/8\<close> seconds and does not animate.
  The second iteration is checked against a new wait of 3 seconds and animates at
  \<open>117/20\<close> seconds, which does not exceed the wait of the first check.
\<close>

theorem glitch_wait_redrawn_counterexample:
  "drawn_wait sample_state = 59 / 8
   \<and> st_last_status_glitch_time
        (state_of sample_state (tick sample_fl sample_state (sample_in 5))) = 0
   \<and> drawn_wait (state_of sample_state (tick sample_fl sample_state (sample_in 5))) = 3
   \<and> st_last_status_glitch_time
        (state_of (state_of sample_state (tick sample_fl sample_state (sample_in 5)))
           (tick sample_fl
              (state_of sample_state (tick sample_fl sample_state (sample_in 5)))
              (sample_in (117 / 20))))
       = 117 / 20 + 1 / 2
   \<and> \<not> (117 / 20 - 0 > (59 / 8 :: real))"
proof -
  obtain st1 ws1 where t1: "tick sample_fl sample_state (sample_in 5) = Inr (Continue st1 ws1)"
    using sample_tick_runs by blast
  have s1: "state_of sample_state (tick sample_fl sample_state (sample_in 5)) = st1"
    by (rule state_of_Continue [OF t1])
  have nofire: "\<not> in_now_check (sample_in 5) - st_last_status_glitch_time sample_state
      > drawn_wait sample_state"
    by (simp add: drawn_wait_sample sample_in_def sample_state_last)
  have l1: "st_last_status_glitch_time st1 = 0" and g1: "st_rng st1 = sdrop 4 (st_rng sample_state)"
    using tick_schedule [OF t1] nofire by (simp_all add: sample_state_last)
  have w1: "drawn_wait st1 = 3"
    by (simp add: drawn_wait_def g1 sample_state_def uniform_def random_unit_def
        sdrop_3 sdrop_4 MIN_WAIT_def)
  obtain st2 ws2 where t2: "tick sample_fl st1 (sample_in (117 / 20)) = Inr (Continue st2 ws2)"
    using sample_tick_runs by blast
  have s2: "state_of st1 (tick sample_fl st1 (sample_in (117 / 20))) = st2"
    by (rule state_of_Continue [OF t2])
  have l2: "st_last_status_glitch_time st2 = 117 / 20 + 1 / 2"
    using tick_schedule [OF t2] by (simp add: w1 l1 sample_in_def)
  show ?thesis
    unfolding s1 s2 using drawn_wait_sample l1 w1 l2 by simp
qed

subsection \<open>The animation on an empty text\<close>

text \<open>
  C2, as the code has it. With an empty text \<^verbatim>\<open>glitch_line\<close> has no guard: whenever
  at least one frame and at least one replacement per frame are asked for
  (\<open>min_frames \<ge> 1\<close> and \<open>min_chars \<ge> 1\<close>, which the default bounds satisfy), the call
  raises \<^verbatim>\<open>ValueError\<close>, from \<^verbatim>\<open>randrange(0)\<close> at the first index selection or from
  \<^verbatim>\<open>randint\<close> on an empty interval.
\<close>

theorem glitch_line_empty_text:
  assumes "1 \<le> min_chars" and "1 \<le> min_frames"
  shows "glitch_line [] color row x min_chars max_chars min_frames max_frames g
           = Inl ValueError"
proof (cases "randint min_frames max_frames g")
  case (Inl e)
  then show ?thesis using randint_Inl [OF Inl] by (simp add: glitch_line_def)
next
  case (Inr p)
  obtain k g1 where p: "p = (k, g1)" by (cases p)
  with Inr randint_Inr_bounds have "min_frames \<le> k" by blast
  with assms obtain j where "nat k = Suc j" by (cases "nat k") auto
  then show ?thesis using Inr p glitch_frames_empty [OF assms(1)]
    by (simp add: glitch_line_def)
qed

theorem glitch_line_empty_text_witness:
  "(1::int) \<le> 1 \<and> (1::int) \<le> 3
   \<and> glitch_line [] (color_pair 4) 9 4 1 6 3 6 (sconst 7) = Inl ValueError"
  using glitch_line_empty_text [of 1 3 "color_pair 4" 9 4 6 6 "sconst 7"] by simp

text \<open>
  The specification's guard is contradicted at the default bounds: the call on the
  empty string raises instead of returning.
\<close>

theorem glitch_line_empty_text_counterexample:
  "glitch_line [] (color_pair 4) status_row 4
     MIN_GLITCH_CHARS MAX_GLITCH_CHARS MIN_FRAMES MAX_FRAMES (sconst 0) = Inl ValueError"
  by (simp add: glitch_line_def randint_def randrange_def numeral_3_eq_3
      MIN_GLITCH_CHARS_def MAX_GLITCH_CHARS_def MIN_FRAMES_def MAX_FRAMES_def)

subsection \<open>Status levels\<close>

text \<open>
  C3. \<^verbatim>\<open>get_system_status\<close> is a total function of \<open>(cpu, mem)\<close>: CRITICAL when
  \<open>cpu \<ge> 80\<close> or \<open>mem \<ge> 85\<close>; otherwise DEGRADED when \<open>cpu \<ge> 60\<close> or \<open>mem \<ge> 70\<close>;
  otherwise MONITORING when \<open>cpu \<ge> 40\<close> or \<open>mem \<ge> 60\<close>; otherwise NOMINAL. The rules
  are tried in that order, so each level is returned exactly on its region; the
  bounds are inclusive; and the four sample snapshots get the stated levels.
\<close>

theorem get_system_status_policy:
  "get_system_status cpu mem =
     (if 80 \<le> cpu \<or> 85 \<le> mem then ''CRITICAL''
      else if 60 \<le> cpu \<or> 70 \<le> mem then ''DEGRADED''
      else if 40 \<le> cpu \<or> 60 \<le> mem then ''MONITORING''
      else ''NOMINAL'')
   \<and> (get_system_status cpu mem = ''CRITICAL'') = (80 \<le> cpu \<or> 85 \<le> mem)
   \<and> (get_system_status cpu mem = ''DEGRADED'')
       = (cpu < 80 \<and> mem < 85 \<and> (60 \<le> cpu \<or> 70 \<le> mem))
   \<and> (get_system_status cpu mem = ''MONITORING'')
       = (cpu < 60 \<and> mem < 70 \<and> (40 \<le> cpu \<or> 60 \<le> mem))
   \<and> (get_system_status cpu mem = ''NOMINAL'') = (cpu < 40 \<and> mem < 60)
   \<and> get_system_status 80 0 = ''CRITICAL'' \<and> get_system_status 0 85 = ''CRITICAL''
   \<and> get_system_status 60 0 = ''DEGRADED'' \<and> get_system_status 0 70 = ''DEGRADED''
   \<and> get_system_status 40 0 = ''MONITORING'' \<and> get_system_status 0 60 = ''MONITORING''
   \<and> get_system_status 85 50 = ''CRITICAL'' \<and> get_system_status 65 50 = ''DEGRADED''
   \<and> get_system_status 45 50 = ''MONITORING'' \<and> get_system_status 10 10 = ''NOMINAL''"
proof -
  have cascade: "get_system_status cpu mem =
     (if 80 \<le> cpu \<or> 85 \<le> mem then ''CRITICAL''
      else if 60 \<le> cpu \<or> 70 \<le> mem then ''DEGRADED''
      else if 40 \<le> cpu \<or> 60 \<le> mem then ''MONITORING''
      else ''NOMINAL'')"
    by (simp add: get_system_status_def)
  have regions:
    "(get_system_status cpu mem = ''CRITICAL'') = (80 \<le> cpu \<or> 85 \<le> mem)"
    "(get_system_status cpu mem = ''DEGRADED'')
       = (cpu < 80 \<and> mem < 85 \<and> (60 \<le> cpu \<or> 70 \<le> mem))"
    "(get_system_status cpu mem = ''MONITORING'')
       = (cpu < 60 \<and> mem < 70 \<and> (40 \<le> cpu \<or> 60 \<le> mem))"
    "(get_system_status cpu mem = ''NOMINAL'') = (cpu < 40 \<and> mem < 60)"
    unfolding cascade by auto
  have samples:
    "get_system_status 80 0 = ''CRITICAL''" "get_system_status 0 85 = ''CRITICAL''"
    "get_system_status 60 0 = ''DEGRADED''" "get_system_status 0 70 = ''DEGRADED''"
    "get_system_status 40 0 = ''MONITORING''" "get_system_status 0 60 = ''MONITORING''"
    "get_system_status 85 50 = ''CRITICAL''" "get_system_status 65 50 = ''DEGRADED''"
    "get_system_status 45 50 = ''MONITORING''" "get_system_status 10 10 = ''NOMINAL''"
    by (simp_all add: get_system_status_def)
  show ?thesis
    using cascade regions samples by (intro conjI)
qed

theorem get_system_status_policy_witness:
  "get_system_status 79 84 = ''DEGRADED'' \<and> get_system_status 90 90 = ''CRITICAL''
   \<and> get_system_status 59 69 = ''MONITORING'' \<and> get_system_status 39 59 = ''NOMINAL''"
  using get_system_status_policy [of 79 84] get_system_status_policy [of 90 90]
    get_system_status_policy [of 59 69] get_system_status_policy [of 39 59]
  by simp

subsection \<open>The order of append and render\<close>

text \<open>
  C4, as the code has it. In one iteration the summary line is appended to the log
  (with the eviction) before the log block is drawn: the log block that the
  iteration draws, the operations from row 46 on, is the buffer after the append, its
  last line is the summary line of this very iteration, and that line is the last
  thing the iteration writes.
\<close>

theorem log_appended_before_render:
  assumes "tick fl st inp = Inr (Continue st' ws)"
  shows "st_log_lines st'
           = log_append (st_log_lines st)
               (log_message (fl_fixed fl) (in_strftime inp) (in_cpu inp) (in_mem inp))
       \<and> last (st_log_lines st')
           = log_message (fl_fixed fl) (in_strftime inp) (in_cpu inp) (in_mem inp)
       \<and> filter (\<lambda>w. 46 \<le> op_row w) ws = draw_log 46 (st_log_lines st')
       \<and> map op_text (filter (\<lambda>w. 46 \<le> op_row w) ws)
           = map (\<lambda>l. ljust l 60) (st_log_lines st')
       \<and> op_text (last ws)
           = ljust (log_message (fl_fixed fl) (in_strftime inp) (in_cpu inp) (in_mem inp)) 60"
proof -
  let ?m = "log_message (fl_fixed fl) (in_strftime inp) (in_cpu inp) (in_mem inp)"
  have a: "st_log_lines st' = log_append (st_log_lines st) ?m"
    and b: "filter (\<lambda>w. 46 \<le> op_row w) ws = draw_log 46 (st_log_lines st')"
    using tick_log_block [OF assms] by simp_all
  have c: "last (st_log_lines st') = ?m" and ne: "st_log_lines st' \<noteq> []"
    using last_log_append [of "st_log_lines st" ?m] a by simp_all
  have d: "map op_text (filter (\<lambda>w. 46 \<le> op_row w) ws)
      = map (\<lambda>l. ljust l 60) (st_log_lines st')"
    by (simp add: b draw_log_texts)
  have dl: "draw_log 46 (st_log_lines st') \<noteq> []"
    using ne by (cases "st_log_lines st'") (simp_all add: draw_log_def)
  have "last ws = last (draw_log 46 (st_log_lines st'))"
    by (rule tick_last_op [OF assms])
  also have "op_text \<dots> = last (map op_text (draw_log 46 (st_log_lines st')))"
    using dl by (simp add: last_map)
  also have "\<dots> = ljust ?m 60"
    using ne c by (simp add: draw_log_texts last_map)
  finally have e: "op_text (last ws) = ljust ?m 60" .
  show ?thesis using a b c d e by blast
qed

theorem log_appended_before_render_witness:
  "\<exists>st' ws. tick sample_fl sample_state (sample_in 5) = Inr (Continue st' ws)
     \<and> st_log_lines st' = [''[12:00:00] CPU 10.0%, MEM 10.0%'']
     \<and> map op_text (filter (\<lambda>w. 46 \<le> op_row w) ws)
         = [ljust ''[12:00:00] CPU 10.0%, MEM 10.0%'' 60]"
proof -
  obtain st' ws where t: "tick sample_fl sample_state (sample_in 5) = Inr (Continue st' ws)"
    using sample_tick_runs by blast
  have m: "log_message (fl_fixed sample_fl) (in_strftime (sample_in 5)) (in_cpu (sample_in 5))
      (in_mem (sample_in 5)) = ''[12:00:00] CPU 10.0%, MEM 10.0%''"
    by (simp add: log_message_def sample_fl_def sample_fixed_def sample_in_def py_int_def str_int_def
        dec.simps digit_char_def)
  have "st_log_lines st' = [''[12:00:00] CPU 10.0%, MEM 10.0%'']
     \<and> map op_text (filter (\<lambda>w. 46 \<le> op_row w) ws)
         = [ljust ''[12:00:00] CPU 10.0%, MEM 10.0%'' 60]"
    using log_appended_before_render [OF t] unfolding m
    by (simp add: sample_state_def log_append_def MAX_LOG_LINES_def draw_log_texts)
  with t show ?thesis by (intro exI [of _ st'] exI [of _ ws]) simp
qed

text \<open>
  The specification's order, render before append, is contradicted by the first
  iteration of the sample run: the log is empty before it, and the log block the
  iteration draws is its own summary line.
\<close>

theorem own_line_rendered_counterexample:
  "map op_text (filter (\<lambda>w. 46 \<le> op_row w)
      (ops_of (tick sample_fl sample_state (sample_in 5))))
     = [ljust ''[12:00:00] CPU 10.0%, MEM 10.0%'' 60]
   \<and> st_log_lines sample_state = []"
proof -
  obtain st' ws where t: "tick sample_fl sample_state (sample_in 5) = Inr (Continue st' ws)"
    using sample_tick_runs by blast
  have m: "log_message (fl_fixed sample_fl) (in_strftime (sample_in 5)) (in_cpu (sample_in 5))
      (in_mem (sample_in 5)) = ''[12:00:00] CPU 10.0%, MEM 10.0%''"
    by (simp add: log_message_def sample_fl_def sample_fixed_def sample_in_def py_int_def str_int_def
        dec.simps digit_char_def)
  have "filter (\<lambda>w. 46 \<le> op_row w) ws
      = draw_log 46 (log_append (st_log_lines sample_state) ''[12:00:00] CPU 10.0%, MEM 10.0%'')"
    using tick_log_block [OF t] unfolding m by simp
  then have "map op_text (filter (\<lambda>w. 46 \<le> op_row w) ws)
      = [ljust ''[12:00:00] CPU 10.0%, MEM 10.0%'' 60]"
    by (simp add: draw_log_texts sample_state_def log_append_def MAX_LOG_LINES_def)
  then show ?thesis
    unfolding ops_of_Continue [OF t] by (simp add: sample_state_def)
qed

subsection \<open>The scrolling log\<close>

text \<open>
  C5. The log buffer is a first-in first-out buffer of capacity \<^verbatim>\<open>MAX_LOG_LINES\<close> = 4.
  After any sequence of appends to the empty buffer it holds the last four messages
  in their order, so it never holds more than four; an append to a buffer with room
  adds the message at the end, an append to a full buffer removes exactly the oldest
  line and keeps the order of the others; every run of the loop that starts within
  the capacity ends within it.
\<close>

theorem scrolling_log_fifo:
  "foldl log_append [] ms = drop (length ms - MAX_LOG_LINES) ms
   \<and> length (foldl log_append [] ms) \<le> MAX_LOG_LINES
   \<and> MAX_LOG_LINES = 4
   \<and> foldl log_append [] [a, b, c, d, e] = [b, c, d, e]
   \<and> (length buf < MAX_LOG_LINES \<longrightarrow> log_append buf m = buf @ [m])
   \<and> (length buf = MAX_LOG_LINES \<longrightarrow> log_append buf m = tl buf @ [m])
   \<and> (length buf \<le> MAX_LOG_LINES \<longrightarrow> length (log_append buf m) \<le> MAX_LOG_LINES)
   \<and> (draw_loop fl st inps = Inr (st', ws) \<and> length (st_log_lines st) \<le> MAX_LOG_LINES
        \<longrightarrow> length (st_log_lines st') \<le> MAX_LOG_LINES)"
proof -
  have f: "foldl log_append [] xs = drop (length xs - MAX_LOG_LINES) xs" for xs :: "string list"
    using foldl_log_append [of "[]" xs] by simp
  have "foldl log_append [] [a, b, c, d, e] = [b, c, d, e]"
    by (simp add: log_append_def MAX_LOG_LINES_def)
  moreover have "length (foldl log_append [] ms) \<le> MAX_LOG_LINES"
    by (simp add: f)
  moreover have "MAX_LOG_LINES = 4" by (simp add: MAX_LOG_LINES_def)
  moreover have "length buf \<le> MAX_LOG_LINES \<longrightarrow> length (log_append buf m) \<le> MAX_LOG_LINES"
    by (simp add: length_log_append)
  ultimately show ?thesis
    using f [of ms] log_append_room [of buf m] log_append_full [of buf m]
      draw_loop_log_bound [of fl st inps st' ws]
    by blast
qed

theorem scrolling_log_fifo_witness:
  "foldl log_append [] [''a'', ''b'', ''c'', ''d'', ''e'', ''f''] = [''c'', ''d'', ''e'', ''f'']
   \<and> log_append [''a'', ''b''] ''c'' = [''a'', ''b'', ''c'']
   \<and> log_append [''a'', ''b'', ''c'', ''d''] ''e'' = [''b'', ''c'', ''d'', ''e'']
   \<and> length (log_append [''a'', ''b'', ''c'', ''d''] ''e'') \<le> 4
   \<and> (\<exists>st' ws. draw_loop sample_fl sample_state [sample_in 5, sample_in 6] = Inr (st', ws)
         \<and> length (st_log_lines st') \<le> 4)"
proof -
  have k: "in_key (sample_in n) \<noteq> Some 113" "list_all complete (in_procs (sample_in n))" for n
    using sample_in_complete [of n] by simp_all
  obtain st1 ws1 where a: "tick sample_fl sample_state (sample_in 5) = Inr (Continue st1 ws1)"
    using tick_total [OF k] by blast
  obtain st2 ws2 where b: "tick sample_fl st1 (sample_in 6) = Inr (Continue st2 ws2)"
    using tick_total [OF k] by blast
  have r: "draw_loop sample_fl sample_state [sample_in 5, sample_in 6] = Inr (st2, ws1 @ ws2)"
    by (simp add: a b)
  have l0: "length (st_log_lines sample_state) \<le> MAX_LOG_LINES"
    by (simp add: sample_state_def)
  note A = scrolling_log_fifo [of "[''a'', ''b'', ''c'', ''d'', ''e'', ''f'']"
      "''a''" "''b''" "''c''" "''d''" "''e''" "[''a'', ''b'']" "''c''"
      sample_fl sample_state "[sample_in 5, sample_in 6]" st2 "ws1 @ ws2"]
  note B = scrolling_log_fifo [of "[]" "''a''" "''b''" "''c''" "''d''" "''e''"
      "[''a'', ''b'', ''c'', ''d'']" "''e''" sample_fl sample_state "[]" sample_state "[]"]
  have 1: "foldl log_append [] [''a'', ''b'', ''c'', ''d'', ''e'', ''f''] = [''c'', ''d'', ''e'', ''f'']"
    using A by (simp add: MAX_LOG_LINES_def log_append_def)
  have 2: "log_append [''a'', ''b''] ''c'' = [''a'', ''b'', ''c'']"
    using A by (simp add: MAX_LOG_LINES_def log_append_def)
  have 3: "log_append [''a'', ''b'', ''c'', ''d''] ''e'' = [''b'', ''c'', ''d'', ''e'']"
    using B by (simp add: MAX_LOG_LINES_def log_append_def)
  have 4: "length (log_append [''a'', ''b'', ''c'', ''d''] ''e'') \<le> 4"
    using B by (simp add: MAX_LOG_LINES_def log_append_def)
  have 5: "length (st_log_lines st2) \<le> 4"
    using A r l0 by (simp add: MAX_LOG_LINES_def)
  show ?thesis using 1 2 3 4 5 r by blast
qed

subsection \<open>The process table\<close>

text \<open>
  C6. The sort puts the entries in descending order of \<^verbatim>\<open>cpu\<close> and is stable: its
  result is a permutation of the list in which every entry has a \<^verbatim>\<open>cpu\<close> value not
  below that of any later entry, and the entries of any one \<^verbatim>\<open>cpu\<close> value keep their
  enumeration order; it returns whenever every entry has a \<^verbatim>\<open>cpu\<close> value. For
  \<^verbatim>\<open>cpu\<close> values 10, 90, 50, 90 the order is second, fourth, third, first. The table
  shows the first 25 entries of the sorted list. In an iteration that completes, the
  sorted list is that of the entries built from the enumeration, and for every
  \<open>i\<close> below the number of shown entries the screen row \<open>19 + i\<close> holds the six fields
  of the \<open>i\<close>-th entry of the sorted list (pid, user, cpu, mem, time and name, in their
  widths and colours, one after the other from column 4); the other rows of the
  table, up to row 43, are not written.
\<close>

theorem process_table_top_n:
  "sort_by_cpu [sample_entry 1 10, sample_entry 2 90, sample_entry 3 50, sample_entry 4 90]
     = Inr [sample_entry 2 90, sample_entry 4 90, sample_entry 3 50, sample_entry 1 10]
   \<and> ((\<forall>p\<in>set ps. p_cpu p \<noteq> None) \<longrightarrow> (\<exists>srt. sort_by_cpu ps = Inr srt))
   \<and> (sort_by_cpu ps = Inr srt \<longrightarrow>
        mset srt = mset ps
      \<and> sorted_wrt (\<lambda>a b. \<exists>x y. p_cpu a = Some x \<and> p_cpu b = Some y \<and> y \<le> x) srt
      \<and> (\<forall>c. filter (\<lambda>p. p_cpu p = c) srt = filter (\<lambda>p. p_cpu p = c) ps)
      \<and> shown_processes srt = take 25 srt
      \<and> length (shown_processes srt) = min 25 (length ps))
   \<and> (tick fl st inp = Inr (Continue st' ws) \<longrightarrow>
        (\<exists>unsorted processes.
            map Inr unsorted = map (make_entry fl) (in_procs inp)
          \<and> sort_by_cpu unsorted = Inr processes
          \<and> (\<forall>i<length (shown_processes processes). \<exists>c m.
                p_cpu (processes ! i) = Some c \<and> p_mem (processes ! i) = Some m
              \<and> map op_text (filter (\<lambda>w. op_row w = 19 + i) ws)
                  = [rjust (str_int (p_pid (processes ! i))) 5 @ '' '',
                     ljust (p_user (processes ! i)) 8 @ '' '',
                     rjust (fl_fixed fl 1 c) 5 @ '' '',
                     rjust (fl_fixed fl 1 m) 5 @ '' '',
                     rjust (p_time (processes ! i)) 9 @ '' '',
                     ljust (p_name (processes ! i)) 20]
              \<and> map op_attr (filter (\<lambda>w. op_row w = 19 + i) ws)
                  = [color_pair 8, color_pair 8, cpu_color c, mem_color m,
                     color_pair 8, color_pair 8]
              \<and> map op_col (filter (\<lambda>w. op_row w = 19 + i) ws)
                  = starts 4 (map op_text (filter (\<lambda>w. op_row w = 19 + i) ws)))
          \<and> (\<forall>i. length (shown_processes processes) \<le> i \<and> i < 25
                \<longrightarrow> filter (\<lambda>w. op_row w = 19 + i) ws = [])))"
proof -
  have e: "sort_by_cpu
      [sample_entry 1 10, sample_entry 2 90, sample_entry 3 50, sample_entry 4 90]
     = Inr [sample_entry 2 90, sample_entry 4 90, sample_entry 3 50, sample_entry 1 10]"
    by (simp add: sort_by_cpu_def sample_entry_def cpu_key_def)
  have t: "\<exists>srt. sort_by_cpu ps = Inr srt" if "\<forall>p\<in>set ps. p_cpu p \<noteq> None"
  proof -
    from that have "\<not> list_ex (\<lambda>p. p_cpu p = None) ps"
      by (auto simp: list_ex_iff)
    then show ?thesis by (simp add: sort_by_cpu_def)
  qed
  have s: "mset srt = mset ps
      \<and> sorted_wrt (\<lambda>a b. \<exists>x y. p_cpu a = Some x \<and> p_cpu b = Some y \<and> y \<le> x) srt
      \<and> (\<forall>c. filter (\<lambda>p. p_cpu p = c) srt = filter (\<lambda>p. p_cpu p = c) ps)
      \<and> shown_processes srt = take 25 srt
      \<and> length (shown_processes srt) = min 25 (length ps)"
    if r: "sort_by_cpu ps = Inr srt"
  proof -
    have "length srt = length ps"
      using sort_by_cpu_mset [OF r] by (rule mset_eq_length)
    then have "length (shown_processes srt) = min 25 (length ps)"
      by (simp add: shown_processes_def TOP_N_PROCS_def min.commute)
    then show ?thesis
      using sort_by_cpu_mset [OF r] sort_by_cpu_sorted [OF r] sort_by_cpu_stable [OF r]
      by (simp add: shown_processes_def TOP_N_PROCS_def)
  qed
  have d: "\<exists>unsorted processes.
            map Inr unsorted = map (make_entry fl) (in_procs inp)
          \<and> sort_by_cpu unsorted = Inr processes
          \<and> (\<forall>i<length (shown_processes processes). \<exists>c m.
                p_cpu (processes ! i) = Some c \<and> p_mem (processes ! i) = Some m
              \<and> map op_text (filter (\<lambda>w. op_row w = 19 + i) ws)
                  = [rjust (str_int (p_pid (processes ! i))) 5 @ '' '',
                     ljust (p_user (processes ! i)) 8 @ '' '',
                     rjust (fl_fixed fl 1 c) 5 @ '' '',
                     rjust (fl_fixed fl 1 m) 5 @ '' '',
                     rjust (p_time (processes ! i)) 9 @ '' '',
                     ljust (p_name (processes ! i)) 20]
              \<and> map op_attr (filter (\<lambda>w. op_row w = 19 + i) ws)
                  = [color_pair 8, color_pair 8, cpu_color c, mem_color m,
                     color_pair 8, color_pair 8]
              \<and> map op_col (filter (\<lambda>w. op_row w = 19 + i) ws)
                  = starts 4 (map op_text (filter (\<lambda>w. op_row w = 19 + i) ws)))
          \<and> (\<forall>i. length (shown_processes processes) \<le> i \<and> i < 25
                \<longrightarrow> filter (\<lambda>w. op_row w = 19 + i) ws = [])"
    if r: "tick fl st inp = Inr (Continue st' ws)"
  proof -
    obtain unsorted processes where
      c: "collect_processes fl [] (in_procs inp) = Inr unsorted"
      and so: "sort_by_cpu unsorted = Inr processes"
      and rows: "\<And>i. i < length (shown_processes processes) \<Longrightarrow>
         \<exists>parts. line_parts (fl_fixed fl) (processes ! i) = Inr parts
           \<and> filter (\<lambda>w. op_row w = 19 + i) ws = draw_parts (19 + i) 4 parts"
      and none: "\<And>i. length (shown_processes processes) \<le> i \<and> i < TOP_N_PROCS
         \<Longrightarrow> filter (\<lambda>w. op_row w = 19 + i) ws = []"
      using tick_table [OF r] by blast
    have u: "map Inr unsorted = map (make_entry fl) (in_procs inp)"
      using collect_processes_Inr [OF c] by simp
    have row: "\<exists>c m.
          p_cpu (processes ! i) = Some c \<and> p_mem (processes ! i) = Some m
        \<and> map op_text (filter (\<lambda>w. op_row w = 19 + i) ws)
            = [rjust (str_int (p_pid (processes ! i))) 5 @ '' '',
               ljust (p_user (processes ! i)) 8 @ '' '',
               rjust (fl_fixed fl 1 c) 5 @ '' '',
               rjust (fl_fixed fl 1 m) 5 @ '' '',
               rjust (p_time (processes ! i)) 9 @ '' '',
               ljust (p_name (processes ! i)) 20]
        \<and> map op_attr (filter (\<lambda>w. op_row w = 19 + i) ws)
            = [color_pair 8, color_pair 8, cpu_color c, mem_color m,
               color_pair 8, color_pair 8]
        \<and> map op_col (filter (\<lambda>w. op_row w = 19 + i) ws)
            = starts 4 (map op_text (filter (\<lambda>w. op_row w = 19 + i) ws))"
      if i: "i < length (shown_processes processes)" for i
    proof -
      obtain parts where
        lp: "line_parts (fl_fixed fl) (processes ! i) = Inr parts"
        and f: "filter (\<lambda>w. op_row w = 19 + i) ws = draw_parts (19 + i) 4 parts"
        using rows [OF i] by blast
      obtain c m where cm: "p_cpu (processes ! i) = Some c" "p_mem (processes ! i) = Some m"
        and parts: "parts = [(rjust (str_int (p_pid (processes ! i))) 5 @ '' '', color_pair 8),
                       (ljust (p_user (processes ! i)) 8 @ '' '', color_pair 8),
                       (rjust (fl_fixed fl 1 c) 5 @ '' '', cpu_color c),
                       (rjust (fl_fixed fl 1 m) 5 @ '' '', mem_color m),
                       (rjust (p_time (processes ! i)) 9 @ '' '', color_pair 8),
                       (ljust (p_name (processes ! i)) 20, color_pair 8)]"
        using line_parts_Inr [OF lp] by blast
      have 1: "map op_text (filter (\<lambda>w. op_row w = 19 + i) ws) = map fst parts"
        unfolding f by (rule draw_parts_texts)
      have 2: "map op_attr (filter (\<lambda>w. op_row w = 19 + i) ws) = map snd parts"
        unfolding f by (rule draw_parts_attrs)
      have 3: "map op_col (filter (\<lambda>w. op_row w = 19 + i) ws)
          = starts 4 (map op_text (filter (\<lambda>w. op_row w = 19 + i) ws))"
        unfolding 1 unfolding f by (rule draw_parts_cols)
      from cm 3 show ?thesis
        unfolding 1 2 parts by (intro exI [of _ c] exI [of _ m]) simp
    qed
    from u so row none show ?thesis
      by (intro exI [of _ unsorted] exI [of _ processes]) (simp add: TOP_N_PROCS_def)
  qed
  from e t s d show ?thesis by blast
qed

theorem process_table_top_n_witness:
  "\<exists>st' ws. tick sample_fl sample_state (sample_in 5) = Inr (Continue st' ws)
     \<and> map op_text (filter (\<lambda>w. op_row w = 19) ws)
         = [''    2 '', ''?        '', '' 90.0 '', ''  1.0 '', '' 00:00:03 '',
            ''worker              '']
     \<and> map op_attr (filter (\<lambda>w. op_row w = 19) ws)
         = [color_pair 8, color_pair 8, bold (color_pair 5), color_pair 4,
            color_pair 8, color_pair 8]
     \<and> map op_col (filter (\<lambda>w. op_row w = 19) ws) = [4, 10, 19, 25, 31, 41]
     \<and> map op_text (filter (\<lambda>w. op_row w = 20) ws)
         = [''    1 '', ''root     '', '' 10.0 '', ''  1.0 '', '' 00:00:03 '',
            ''worker              '']
     \<and> filter (\<lambda>w. op_row w = 21) ws = []
     \<and> (\<exists>srt. sort_by_cpu
            [sample_entry 1 10, sample_entry 2 90, sample_entry 3 50, sample_entry 4 90]
            = Inr srt
          \<and> length (shown_processes srt) = 4
          \<and> filter (\<lambda>p. p_cpu p = Some 90) srt = [sample_entry 2 90, sample_entry 4 90])"
proof -
  obtain st' ws where t: "tick sample_fl sample_state (sample_in 5) = Inr (Continue st' ws)"
    using sample_tick_runs by blast
  let ?ps = "[sample_entry 1 10, sample_entry 2 90, sample_entry 3 50, sample_entry 4 90]"
  have ex: "\<forall>p\<in>set ?ps. p_cpu p \<noteq> None"
    by (simp add: sample_entry_def)
  obtain srt where so: "sort_by_cpu ?ps = Inr srt"
    using process_table_top_n [of ?ps "[]" sample_fl sample_state "sample_in 5" st' ws] ex
    by blast
  have l4: "length (shown_processes srt) = min 25 (length ?ps)"
    and st: "\<forall>c. filter (\<lambda>p. p_cpu p = c) srt = filter (\<lambda>p. p_cpu p = c) ?ps"
    using process_table_top_n [of ?ps srt sample_fl sample_state "sample_in 5" st' ws] so
    by blast+
  have r3: "length (shown_processes srt) = 4
      \<and> filter (\<lambda>p. p_cpu p = Some 90) srt = [sample_entry 2 90, sample_entry 4 90]"
    using l4 st [rule_format, of "Some 90"] by (simp add: sample_entry_def)
  let ?e1 = "(sample_entry 1 10)\<lparr>p_user := ''root''\<rparr>"
  let ?e2 = "sample_entry 2 90"
  obtain unsorted processes where
    u: "map Inr unsorted = map (make_entry sample_fl) (in_procs (sample_in 5))"
    and s: "sort_by_cpu unsorted = Inr processes"
    and rows: "\<forall>i<length (shown_processes processes). \<exists>c m.
          p_cpu (processes ! i) = Some c \<and> p_mem (processes ! i) = Some m
        \<and> map op_text (filter (\<lambda>w. op_row w = 19 + i) ws)
            = [rjust (str_int (p_pid (processes ! i))) 5 @ '' '',
               ljust (p_user (processes ! i)) 8 @ '' '',
               rjust (fl_fixed sample_fl 1 c) 5 @ '' '',
               rjust (fl_fixed sample_fl 1 m) 5 @ '' '',
               rjust (p_time (processes ! i)) 9 @ '' '',
               ljust (p_name (processes ! i)) 20]
        \<and> map op_attr (filter (\<lambda>w. op_row w = 19 + i) ws)
            = [color_pair 8, color_pair 8, cpu_color c, mem_color m,
               color_pair 8, color_pair 8]
        \<and> map op_col (filter (\<lambda>w. op_row w = 19 + i) ws)
            = starts 4 (map op_text (filter (\<lambda>w. op_row w = 19 + i) ws))"
    and none: "\<forall>i. length (shown_processes processes) \<le> i \<and> i < 25
        \<longrightarrow> filter (\<lambda>w. op_row w = 19 + i) ws = []"
    using process_table_top_n [of "[]" "[]" sample_fl sample_state "sample_in 5" st' ws] t
    by blast
  have un: "unsorted = [?e1, ?e2]"
    using u by (auto simp: sample_in_def sample_entries sample_entry_def map_eq_Cons_conv)
  have pr: "processes = [?e2, ?e1]"
    using s unfolding un by (simp add: sort_by_cpu_def sample_entry_def cpu_key_def)
  have sh: "length (shown_processes processes) = 2"
    by (simp add: pr shown_processes_def TOP_N_PROCS_def)
  have l: "0 < length (shown_processes processes)" "1 < length (shown_processes processes)"
    by (simp_all add: sh)
  have f: "sample_fixed (Suc 0) 90 = ''90.0''" "sample_fixed (Suc 0) 1 = ''1.0''"
    "sample_fixed (Suc 0) 10 = ''10.0''" "str_int 1 = ''1''" "str_int 2 = ''2''"
    by (simp_all add: sample_fixed_def py_int_def str_int_def dec.simps digit_char_def)
  have rp: "replicate n x = (if n = 0 then [] else x # replicate (n - 1) x)"
    for n and x :: char
    by (cases n) simp_all
  have r0: "map op_text (filter (\<lambda>w. op_row w = 19) ws)
         = [''    2 '', ''?        '', '' 90.0 '', ''  1.0 '', '' 00:00:03 '',
            ''worker              '']
     \<and> map op_attr (filter (\<lambda>w. op_row w = 19) ws)
         = [color_pair 8, color_pair 8, bold (color_pair 5), color_pair 4,
            color_pair 8, color_pair 8]
     \<and> map op_col (filter (\<lambda>w. op_row w = 19) ws) = [4, 10, 19, 25, 31, 41]"
    using rows [rule_format, OF l(1)]
    by (simp add: pr sample_entry_def sample_fl_def f rjust_def ljust_def rp
        cpu_color_def mem_color_def)
  have r1: "map op_text (filter (\<lambda>w. op_row w = 20) ws)
         = [''    1 '', ''root     '', '' 10.0 '', ''  1.0 '', '' 00:00:03 '',
            ''worker              '']"
    using rows [rule_format, OF l(2)]
    by (simp add: pr sample_entry_def sample_fl_def f rjust_def ljust_def rp)
  have r2: "filter (\<lambda>w. op_row w = 21) ws = []"
    using none [rule_format, of 2] by (simp add: sh)
  from t r0 r1 r2 so r3 show ?thesis
    by (intro exI [of _ st'] exI [of _ ws]) simp
qed

subsection \<open>Processes that cannot be read\<close>

text \<open>
  C7, as the code has it. The body of the \<^verbatim>\<open>try\<close> only reads the dictionary that
  \<^verbatim>\<open>process_iter\<close> filled, so it raises neither \<^verbatim>\<open>NoSuchProcess\<close> nor
  \<^verbatim>\<open>AccessDenied\<close>: the handler never runs, and a list that the loop collects has one
  entry for every process of the enumeration. A process whose \<^verbatim>\<open>cpu_times\<close> was
  denied, which the dictionary holds as \<^verbatim>\<open>None\<close>, is not left out: its
  \<^verbatim>\<open>cpu_time.user\<close> raises \<^verbatim>\<open>AttributeError\<close>, which the handler does not catch.
  When the processes before it were read in full, the collection and the whole
  iteration end with that exception, and nothing of the iteration is drawn; wherever
  the process stands in the enumeration, the iteration ends with an exception.
\<close>

theorem denied_read_aborts_iteration:
  "make_entry fl info \<noteq> Inl NoSuchProcess \<and> make_entry fl info \<noteq> Inl AccessDenied
   \<and> (collect_processes fl [] infos = Inr processes \<longrightarrow>
        length processes = length infos \<and> (\<forall>i\<in>set infos. info_cpu_times i \<noteq> None))
   \<and> (info_cpu_times info = None \<longrightarrow>
        make_entry fl info = Inl AttributeError
      \<and> (list_all complete before \<longrightarrow>
           collect_processes fl [] (before @ info # after) = Inl AttributeError)
      \<and> (list_all complete before \<and> in_key inp \<noteq> Some 113 \<longrightarrow>
           tick fl st (inp\<lparr>in_procs := before @ info # after\<rparr>) = Inl AttributeError)
      \<and> (info \<in> set (in_procs inp) \<and> in_key inp \<noteq> Some 113 \<longrightarrow>
           (\<exists>e. tick fl st inp = Inl e \<and> (e = AttributeError \<or> e = TypeError))))"
proof -
  have a: "make_entry fl info \<noteq> Inl NoSuchProcess \<and> make_entry fl info \<noteq> Inl AccessDenied"
    using make_entry_Inl [of fl info] by auto
  have b: "length processes = length infos \<and> (\<forall>i\<in>set infos. info_cpu_times i \<noteq> None)"
    if c: "collect_processes fl [] infos = Inr processes"
  proof -
    have "info_cpu_times i \<noteq> None" if "i \<in> set infos" for i
    proof
      assume "info_cpu_times i = None"
      from collect_processes_denied [OF that this, of fl "[]"] c show False by auto
    qed
    then show ?thesis
      using collect_processes_length [OF c] by simp
  qed
  have d: "collect_processes fl [] (before @ info # after) = Inl AttributeError"
    if "info_cpu_times info = None" and "list_all complete before"
    using that by (intro collect_processes_first_denied)
  have e: "tick fl st (inp\<lparr>in_procs := before @ info # after\<rparr>) = Inl AttributeError"
    if "info_cpu_times info = None" and "list_all complete before"
      and "in_key inp \<noteq> Some 113"
    using that by (intro tick_first_denied)
  have f: "\<exists>e. tick fl st inp = Inl e \<and> (e = AttributeError \<or> e = TypeError)"
    if "info_cpu_times info = None" and "info \<in> set (in_procs inp)"
      and "in_key inp \<noteq> Some 113"
    using that by (intro tick_denied)
  from a b d e f make_entry_denied [of info fl] show ?thesis by blast
qed

theorem denied_read_aborts_iteration_witness:
  "tick sample_fl sample_state
     ((sample_in 5)\<lparr>in_procs := [sample_proc 1 (Some ''root'') 10] @ denied_proc 3
                                  # [sample_proc 2 None 90]\<rparr>)
     = Inl AttributeError
   \<and> collect_processes sample_fl []
       ([sample_proc 1 (Some ''root'') 10] @ denied_proc 3 # [sample_proc 2 None 90])
     = Inl AttributeError
   \<and> (\<exists>e. tick sample_fl sample_state ((sample_in 5)\<lparr>in_procs := [denied_proc 3]\<rparr>)
          = Inl e)
   \<and> (\<exists>processes. collect_processes sample_fl [] (in_procs (sample_in 5)) = Inr processes
        \<and> length processes = 2)"
proof -
  have n: "info_cpu_times (denied_proc 3) = None"
    by (simp add: denied_proc_def)
  have c: "list_all complete [sample_proc 1 (Some ''root'') 10]"
    by (simp add: complete_def sample_proc_def)
  have k: "in_key (sample_in 5) \<noteq> Some 113"
    by (simp add: sample_in_def)
  obtain processes where
    p: "collect_processes sample_fl [] (in_procs (sample_in 5)) = Inr processes"
    using collect_processes_complete [of "in_procs (sample_in 5)" sample_fl "[]"]
      sample_in_complete [of 5]
    by auto
  have l: "length (in_procs (sample_in 5)) = 2"
    by (simp add: sample_in_def)
  note T = denied_read_aborts_iteration [of sample_fl "denied_proc 3" "in_procs (sample_in 5)"
      processes "[sample_proc 1 (Some ''root'') 10]" "[sample_proc 2 None 90]" "sample_in 5"
      sample_state]
  have 1: "tick sample_fl sample_state
     ((sample_in 5)\<lparr>in_procs := [sample_proc 1 (Some ''root'') 10] @ denied_proc 3
                                  # [sample_proc 2 None 90]\<rparr>)
     = Inl AttributeError"
    using T n c k by blast
  have 2: "collect_processes sample_fl []
       ([sample_proc 1 (Some ''root'') 10] @ denied_proc 3 # [sample_proc 2 None 90])
     = Inl AttributeError"
    using T n c by blast
  have 3: "length processes = 2"
    using T p l by simp
  have 4: "\<exists>e. tick sample_fl sample_state ((sample_in 5)\<lparr>in_procs := [denied_proc 3]\<rparr>)
      = Inl e"
    using denied_read_aborts_iteration [of sample_fl "denied_proc 3" "[]" "[]" "[]" "[]"
        "(sample_in 5)\<lparr>in_procs := [denied_proc 3]\<rparr>" sample_state] n k
    by auto
  from 1 2 3 4 p show ?thesis by blast
qed

subsection \<open>Durations\<close>



subsection \<open>The animation with no replacement\<close>

text \<open>
  C9. With \<open>min_chars = max_chars = 0\<close> the call is accepted, and every frame it draws
  is the original text, at the given position and with the given attribute; the
  number of frames lies between the frame bounds.
\<close>

theorem glitch_line_zero_chars:
  assumes "min_frames \<le> max_frames"
  shows "\<exists>n g'. glitch_line text color row x 0 0 min_frames max_frames g
            = Inr (replicate n (Addstr row x text color), g')
          \<and> nat min_frames \<le> n \<and> n \<le> nat max_frames"
proof -
  obtain k g1 where r: "randint min_frames max_frames g = Inr (k, g1)"
    using assms by (simp add: randint_def)
  then have "min_frames \<le> k \<and> k \<le> max_frames"
    using randint_Inr_bounds by blast
  then have "nat min_frames \<le> nat k \<and> nat k \<le> nat max_frames"
    by linarith
  moreover have "glitch_line text color row x 0 0 min_frames max_frames g
      = Inr (replicate (nat k) (Addstr row x text color), sdrop (nat k) g1)"
    by (simp add: glitch_line_def r glitch_frames_zero_chars)
  ultimately show ?thesis by blast
qed

theorem glitch_line_zero_chars_witness:
  "\<exists>n g'. glitch_line ''HELLO'' (color_pair 4) 9 4 0 0 3 6 (sconst 0)
            = Inr (replicate n (Addstr 9 4 ''HELLO'' (color_pair 4)), g')
          \<and> nat 3 \<le> n \<and> n \<le> nat 6"
  using glitch_line_zero_chars [of 3 6 "''HELLO''" "color_pair 4" 9 4 "sconst 0"] by simp

subsection \<open>The fields of an entry\<close>

text \<open>
  C10. An entry is built for every process whose \<^verbatim>\<open>cpu_times\<close> and \<^verbatim>\<open>name\<close> were
  read. In every entry built, the user field is \<open>?\<close> when the username is \<^verbatim>\<open>None\<close> or
  empty and the first 8 characters of the username otherwise, and the name field is
  the first 20 characters of the process name; a list that the loop collects consists
  of exactly these entries, one per process of the enumeration and in its order.
\<close>

theorem entry_user_and_name:
  "(info_cpu_times info \<noteq> None \<and> info_name info \<noteq> None
      \<longrightarrow> (\<exists>entry. make_entry fl info = Inr entry))
   \<and> (make_entry fl info = Inr entry \<longrightarrow>
        (info_username info = None \<or> info_username info = Some [] \<longrightarrow> p_user entry = ''?'')
      \<and> (\<forall>u. info_username info = Some u \<and> u \<noteq> [] \<longrightarrow> p_user entry = take 8 u)
      \<and> length (p_user entry) \<le> 8
      \<and> (\<exists>name. info_name info = Some name \<and> p_name entry = take 20 name)
      \<and> length (p_name entry) \<le> 20)
   \<and> (collect_processes fl [] items = Inr processes \<longrightarrow>
        map Inr processes = map (make_entry fl) items)"
proof -
  have a: "info_cpu_times info \<noteq> None \<and> info_name info \<noteq> None
      \<longrightarrow> (\<exists>entry. make_entry fl info = Inr entry)"
    by (auto simp: make_entry_def Let_def split: prod.splits)
  have b: "make_entry fl info = Inr entry \<longrightarrow>
        (info_username info = None \<or> info_username info = Some [] \<longrightarrow> p_user entry = ''?'')
      \<and> (\<forall>u. info_username info = Some u \<and> u \<noteq> [] \<longrightarrow> p_user entry = take 8 u)
      \<and> length (p_user entry) \<le> 8
      \<and> (\<exists>name. info_name info = Some name \<and> p_name entry = take 20 name)
      \<and> length (p_name entry) \<le> 20"
    by (auto simp: make_entry_def Let_def split: option.splits prod.splits)
  have c: "collect_processes fl [] items = Inr processes \<longrightarrow>
      map Inr processes = map (make_entry fl) items"
    using collect_processes_Inr [of fl "[]" items processes] by simp
  from a b c show ?thesis by blast
qed

theorem entry_user_and_name_witness:
  "(\<exists>entry. make_entry sample_fl (sample_proc 1 None 0) = Inr entry \<and> p_user entry = ''?'')
   \<and> (\<exists>entry. make_entry sample_fl (sample_proc 1 (Some []) 0) = Inr entry
        \<and> p_user entry = ''?'')
   \<and> (\<exists>entry. make_entry sample_fl (sample_proc 1 (Some ''administrator'') 0) = Inr entry
        \<and> p_user entry = ''administ'')
   \<and> (\<exists>entry. make_entry sample_fl (sample_proc 1 (Some ''root'') 0) = Inr entry
        \<and> p_user entry = ''root'')
   \<and> (\<exists>entry. make_entry sample_fl
          ((sample_proc 1 None 0)\<lparr>info_name := Some ''a-process-with-a-long-name''\<rparr>)
          = Inr entry
        \<and> p_name entry = ''a-process-with-a-lon'')
   \<and> (\<exists>processes. collect_processes sample_fl [] (in_procs (sample_in 5)) = Inr processes
        \<and> map Inr processes = map (make_entry sample_fl) (in_procs (sample_in 5)))"
proof -
  have r: "\<exists>entry. make_entry sample_fl info = Inr entry \<and> P entry"
    if "info_cpu_times info \<noteq> None \<and> info_name info \<noteq> None"
      and "\<And>entry. make_entry sample_fl info = Inr entry \<Longrightarrow> P entry"
    for info P
    using that by (auto simp: make_entry_def Let_def split: prod.splits)
  have 1: "\<exists>entry. make_entry sample_fl (sample_proc 1 None 0) = Inr entry
      \<and> p_user entry = ''?''"
    using entry_user_and_name [of "sample_proc 1 None 0" sample_fl]
    by (intro r) (simp_all add: sample_proc_def)
  have 2: "\<exists>entry. make_entry sample_fl (sample_proc 1 (Some []) 0) = Inr entry
      \<and> p_user entry = ''?''"
    using entry_user_and_name [of "sample_proc 1 (Some []) 0" sample_fl]
    by (intro r) (simp_all add: sample_proc_def)
  have 3: "\<exists>entry. make_entry sample_fl (sample_proc 1 (Some ''administrator'') 0) = Inr entry
      \<and> p_user entry = ''administ''"
    using entry_user_and_name [of "sample_proc 1 (Some ''administrator'') 0" sample_fl]
    by (intro r) (simp_all add: sample_proc_def)
  have 4: "\<exists>entry. make_entry sample_fl (sample_proc 1 (Some ''root'') 0) = Inr entry
      \<and> p_user entry = ''root''"
    using entry_user_and_name [of "sample_proc 1 (Some ''root'') 0" sample_fl]
    by (intro r) (simp_all add: sample_proc_def)
  have 5: "\<exists>entry. make_entry sample_fl
          ((sample_proc 1 None 0)\<lparr>info_name := Some ''a-process-with-a-long-name''\<rparr>)
          = Inr entry
        \<and> p_name entry = ''a-process-with-a-lon''"
    using entry_user_and_name
      [of "(sample_proc 1 None 0)\<lparr>info_name := Some ''a-process-with-a-long-name''\<rparr>"
        sample_fl]
    by (intro r) (simp_all add: sample_proc_def)
  obtain processes where
    c: "collect_processes sample_fl [] (in_procs (sample_in 5)) = Inr processes"
    using collect_processes_complete [of "in_procs (sample_in 5)" sample_fl "[]"]
      sample_in_complete [of 5]
    by auto
  have 6: "map Inr processes = map (make_entry sample_fl) (in_procs (sample_in 5))"
    using entry_user_and_name [of _ sample_fl _ "in_procs (sample_in 5)" processes] c
    by blast
  from 1 2 3 4 5 6 c show ?thesis by blast
qed

end
